theory Spec2Isabelle
  imports Complex_Main "HOL-Library.Log_Nat" "HOL-Library.Sublist"
begin

section \<open>JavaScript numbers\<close>

text \<open>
  A JavaScript number is an IEEE-754 binary64 value. The finite ones are modelled as the
  rationals they denote, and every arithmetic operator rounds the exact result to the
  nearest double, ties to even (\<open>fl\<close>): 53 significant bits, gradual underflow below
  \<open>2 powi - 1022\<close>. \<open>NaN\<close> and the infinities are outside the model, so a result of
  magnitude \<open>2 powi 1024\<close> or more is not modelled; the theorems that depend on the
  magnitude of their inputs say so. Comparisons, \<open>Math.min\<close>, \<open>Math.max\<close>,
  \<open>Math.abs\<close> and \<open>Math.floor\<close> are exact on doubles and are the HOL operations.
\<close>

type_synonym number = rat

definition ilog2 :: "rat \<Rightarrow> int" where
  \<comment> \<open>for \<open>0 < x\<close>: the exponent \<open>e\<close> with \<open>2 powi e \<le> x < 2 powi (e + 1)\<close>\<close>
  "ilog2 x = (case quotient_of x of (a, b) \<Rightarrow>
     (let d = bitlen a - bitlen b in if 2 powi d \<le> x then d else d - 1))"

definition rne :: "rat \<Rightarrow> int" where
  \<comment> \<open>round to the nearest integer, ties to the even one\<close>
  "rne y = (let f = \<lfloor>y\<rfloor>; r = y - of_int f in
     if r < 1 / 2 then f else if 1 / 2 < r then f + 1 else if even f then f else f + 1)"

definition fl :: "rat \<Rightarrow> number" where
  "fl x = (if x = 0 then 0 else
     (let q = 2 powi (max (ilog2 \<bar>x\<bar> - 52) (- 1074)) in of_int (rne (x / q)) * q))"

definition quantum :: "rat \<Rightarrow> rat" where
  \<comment> \<open>the spacing of the doubles around \<open>x\<close>: \<open>fl x\<close> is a multiple of it\<close>
  "quantum x = 2 powi (max (ilog2 \<bar>x\<bar> - 52) (- 1074))"

definition jadd :: "number \<Rightarrow> number \<Rightarrow> number" where
  "jadd a b = fl (a + b)"

definition jsub :: "number \<Rightarrow> number \<Rightarrow> number" where
  "jsub a b = fl (a - b)"

definition jmul :: "number \<Rightarrow> number \<Rightarrow> number" where
  "jmul a b = fl (a * b)"

definition jdiv :: "number \<Rightarrow> number \<Rightarrow> number" where
  \<comment> \<open>every division of the modelled code has a non-zero divisor where it is evaluated\<close>
  "jdiv a b = fl (a / b)"

definition Math_round :: "number \<Rightarrow> int" where
  \<comment> \<open>\<open>Math.round\<close>: the nearest integer, a tie going to the one nearer \<open>+\<infinity>\<close>\<close>
  "Math_round x = \<lfloor>x + 1 / 2\<rfloor>"

definition tolerance :: number where
  \<comment> \<open>the literal \<open>0.00001\<close>\<close>
  "tolerance = fl (1 / 100000)"

definition defaultGridSize :: number where
  \<comment> \<open>the literal \<open>0.01\<close>, default of the \<open>gridSize\<close> parameters\<close>
  "defaultGridSize = fl (1 / 100)"

section \<open>Data model\<close>

text \<open>
  A point record is a GeoJSON feature: \<open>geometry.coordinates\<close> (absent, or an array of
  numbers \<open>[lon, lat, \<dots>]\<close>), \<open>properties.text_general_code\<close> (the empty string when
  absent) and \<open>properties.dispatch_date_time\<close>. The date string is read through
  \<open>new Date\<close>; the model holds its outcome: \<open>None\<close> when the field is missing or does
  not parse (the code only counts the two cases apart, in counters it never returns),
  otherwise the instant in milliseconds and the calendar year \<open>getFullYear\<close> gives.
\<close>

record js_date =
  getTime :: int
  getFullYear :: int

record crime =
  coordinates :: "number list option"
  text_general_code :: string
  dispatch_date_time :: "js_date option"

text \<open>
  GeoJSON geometries. A position is an array of numbers, a ring an array of positions.
\<close>

datatype geometry =
    Polygon "number list list list"
  | MultiPolygon "number list list list list"
  | GeometryCollection "geometry list"
  | Unsupported string

text \<open>
  A neighborhood feature. Its \<open>id\<close>, its \<open>properties\<close> object and, in it, \<open>MAPNAME\<close>
  and \<open>name\<close> may each be absent (\<open>None\<close>); so may \<open>geometry\<close>. The identifiers and
  names are strings, as \<open>main.js\<close> assigns them. Reading a field of an absent
  \<open>properties\<close> object without \<open>?.\<close> throws a \<open>TypeError\<close>.
\<close>

datatype error = TypeError

record community_properties =
  MAPNAME :: "string option"
  name :: "string option"

record community =
  community_id :: "string option"
  properties :: "community_properties option"
  geometry :: "geometry option"

definition truthy :: "string option \<Rightarrow> bool" where
  \<comment> \<open>an absent value and the empty string are falsy\<close>
  "truthy v = (case v of None \<Rightarrow> False | Some s \<Rightarrow> s \<noteq> [])"

definition orElse :: "string option \<Rightarrow> string \<Rightarrow> string" where
  \<comment> \<open>\<open>v || d\<close> for a string \<open>d\<close>\<close>
  "orElse v d = (case v of None \<Rightarrow> d | Some s \<Rightarrow> if s = [] then d else s)"

text \<open>
  The \<open>features\<close> field of a collection object: the object itself may be absent, its
  \<open>features\<close> field may be absent, or it holds the list.
\<close>

datatype 'a collection = Absent | NoFeatures | Features "'a list"

text \<open>The three time-window tokens \<open>'6months'\<close>, \<open>'1year'\<close> and \<open>'2years'\<close>.\<close>

datatype timeRange = Months6 | Year1 | Years2

datatype period = Recent | Previous | Other

text \<open>
  \<open>getPeriodType\<close> reads the clock in the \<open>'6months'\<close> mode (\<open>new Date()\<close>, and the
  same instant moved back six and twelve months by \<open>setMonth\<close>). The three instants
  are parameters of the model, in milliseconds.
\<close>

record clock =
  dynamicNow :: int
  sixMonthsAgo :: int
  twelveMonthsAgo :: int

type_synonym vertex = "number \<times> number"  \<comment> \<open>\<open>[lat, lon]\<close>\<close>

record bounds =
  minLat :: number
  maxLat :: number
  minLon :: number
  maxLon :: number

record timeRangeResult =
  recent :: nat
  previous :: nat
  rangeChangePercent :: number

record trend =
  communityId :: string
  communityName :: string
  recentCount :: nat
  previousCount :: nat
  changePercent :: number
  crimeTypes :: "string \<rightharpoonup> nat"
  timeRanges :: "timeRange \<rightharpoonup> timeRangeResult"

text \<open>
  The returned \<open>trends\<close> object and the \<open>crimeTypes\<close> of a record are plain objects
  used as dictionaries, modelled as maps. A key that names a property every object
  inherits (such as \<open>__proto__\<close> or \<open>constructor\<close>) does not behave as a dictionary
  key in JavaScript; such identifiers and labels are outside the model.
\<close>

type_synonym trends = "string \<rightharpoonup> trend"

text \<open>
  The module-level \<open>calculationCache\<close>: the bounding boxes by neighborhood key and the
  trends of the last computation. (Its \<open>spatialIndex\<close> and \<open>crimeDataByTimeRange\<close>
  fields are never read or written.) \<open>communityBounds\<close> is a \<open>Map\<close>; its keys are the
  values of \<open>community.id || community.properties.name\<close>: a string, or \<open>undefined\<close>
  (\<open>None\<close>) when the name is absent.
\<close>

record calculationCache =
  communityBounds :: "string option \<rightharpoonup> bounds"
  results :: trends

type_synonym spatialIndex = "int \<times> int \<rightharpoonup> crime list"

section \<open>Spatial grid index\<close>

definition indexCrime :: "number \<Rightarrow> spatialIndex \<Rightarrow> crime \<Rightarrow> spatialIndex" where
  \<comment> \<open>the body of the \<open>forEach\<close> of \<open>createSpatialIndex\<close>; the key \<open>`${gridX}_${gridY}`\<close>
      is the pair of cell numbers\<close>
  "indexCrime gridSize index c =
     (case coordinates c of
        None \<Rightarrow> index
      | Some coords \<Rightarrow>
          if length coords < 2 then index
          else
            let lon = coords ! 0; lat = coords ! 1;
                gridX = \<lfloor>jdiv lon gridSize\<rfloor>;
                gridY = \<lfloor>jdiv lat gridSize\<rfloor>;
                key = (gridX, gridY)
            in index(key \<mapsto> (case index key of None \<Rightarrow> [] | Some cs \<Rightarrow> cs) @ [c]))"

definition createSpatialIndex :: "crime list \<Rightarrow> number \<Rightarrow> spatialIndex" where
  "createSpatialIndex features gridSize = foldl (indexCrime gridSize) Map.empty features"

section \<open>Geometry extraction\<close>

definition ringCoordinates :: "number list list \<Rightarrow> vertex list" where
  \<comment> \<open>\<open>outerRing.forEach\<close>: a position with two numbers or more gives \<open>[lat, lon]\<close>\<close>
  "ringCoordinates outerRing =
     concat (map (\<lambda>coord. if 2 \<le> length coord then [(coord ! 1, coord ! 0)] else []) outerRing)"

definition outerRingCoordinates :: "number list list list \<Rightarrow> vertex list" where
  \<comment> \<open>only the first ring of a polygon is read\<close>
  "outerRingCoordinates polygon =
     (case polygon of [] \<Rightarrow> [] | outerRing # _ \<Rightarrow> ringCoordinates outerRing)"

fun polygonCoordinates :: "geometry \<Rightarrow> vertex list" where
  "polygonCoordinates (Polygon cs) = outerRingCoordinates cs"
| "polygonCoordinates (MultiPolygon ps) = concat (map outerRingCoordinates ps)"
| "polygonCoordinates (GeometryCollection gs) = concat (map polygonCoordinates gs)"
| "polygonCoordinates (Unsupported t) = []"

definition getPolygonCoordinates :: "geometry option \<Rightarrow> vertex list" where
  "getPolygonCoordinates g = (case g of None \<Rightarrow> [] | Some geo \<Rightarrow> polygonCoordinates geo)"

section \<open>Bounding boxes and the candidate query\<close>

definition extendBounds :: "bounds \<Rightarrow> vertex \<Rightarrow> bounds" where
  "extendBounds b v =
     \<lparr>minLat = min (minLat b) (fst v), maxLat = max (maxLat b) (fst v),
      minLon = min (minLon b) (snd v), maxLon = max (maxLon b) (snd v)\<rparr>"

definition calculateCommunityBounds :: "community \<Rightarrow> bounds option" where
  \<comment> \<open>the accumulators start at \<open>\<plusminus>Infinity\<close>, so after the first vertex they hold its
      coordinates; there are three vertices at least\<close>
  "calculateCommunityBounds c =
     (let coords = getPolygonCoordinates (geometry c) in
      if length coords < 3 then None
      else
        let v = hd coords in
        Some (foldl extendBounds
                \<lparr>minLat = fst v, maxLat = fst v, minLon = snd v, maxLon = snd v\<rparr> (tl coords)))"

definition isPointInBounds :: "number \<Rightarrow> number \<Rightarrow> bounds \<Rightarrow> bool" where
  "isPointInBounds lat lon b \<longleftrightarrow>
     minLat b \<le> lat \<and> lat \<le> maxLat b \<and> minLon b \<le> lon \<and> lon \<le> maxLon b"

definition crimeInBounds :: "bounds \<Rightarrow> crime \<Rightarrow> bool" where
  \<comment> \<open>\<open>const [lon, lat] = crime.geometry.coordinates\<close>: every crime of an index has two
      coordinates at least, so the other branches are not reached\<close>
  "crimeInBounds b c =
     (case coordinates c of
        None \<Rightarrow> False
      | Some coords \<Rightarrow> 2 \<le> length coords \<and> isPointInBounds (coords ! 1) (coords ! 0) b)"

definition cellCrimes :: "spatialIndex \<Rightarrow> bounds \<Rightarrow> int \<times> int \<Rightarrow> crime list" where
  "cellCrimes index b key =
     (case index key of None \<Rightarrow> [] | Some cs \<Rightarrow> filter (crimeInBounds b) cs)"

text \<open>
  The two nested \<open>for\<close> loops over the cells the bounds cover. The counters \<open>x\<close> and
  \<open>y\<close> are numbers and \<open>x++\<close> is a rounded addition: from \<open>2 ^ 53\<close> on it may leave the
  counter where it is, and then the loop does not end. A loop that does not end is the
  value \<open>None\<close>, here and in every function that runs the loops.
\<close>

partial_function (option) yLoop ::
  "spatialIndex \<Rightarrow> bounds \<Rightarrow> number \<Rightarrow> number \<Rightarrow> number \<Rightarrow> crime list \<Rightarrow> crime list option"
where
  "yLoop index b x y endY crimes =
     (if y \<le> endY
      then yLoop index b x (jadd y 1) endY (crimes @ cellCrimes index b (\<lfloor>x\<rfloor>, \<lfloor>y\<rfloor>))
      else Some crimes)"

partial_function (option) xLoop ::
  "spatialIndex \<Rightarrow> bounds \<Rightarrow> number \<Rightarrow> number \<Rightarrow> number \<Rightarrow> number \<Rightarrow> crime list
     \<Rightarrow> crime list option"
where
  "xLoop index b x endX startY endY crimes =
     (if x \<le> endX
      then Option.bind (yLoop index b x startY endY crimes)
             (xLoop index b (jadd x 1) endX startY endY)
      else Some crimes)"

definition boundsCrimes :: "spatialIndex \<Rightarrow> number \<Rightarrow> bounds \<Rightarrow> crime list option" where
  "boundsCrimes index gridSize b =
     (let startX = of_int \<lfloor>jdiv (minLon b) gridSize\<rfloor>;
          endX = of_int \<lfloor>jdiv (maxLon b) gridSize\<rfloor>;
          startY = of_int \<lfloor>jdiv (minLat b) gridSize\<rfloor>;
          endY = of_int \<lfloor>jdiv (maxLat b) gridSize\<rfloor>
      in xLoop index b startX endX startY endY [])"

definition boundsKey :: "community \<Rightarrow> error + string option" where
  \<comment> \<open>\<open>community.id || community.properties.name\<close>: with a falsy \<open>id\<close> the name is
      read, and the read throws when there is no \<open>properties\<close> object\<close>
  "boundsKey c =
     (if truthy (community_id c) then Inr (community_id c)
      else (case properties c of
              None \<Rightarrow> Inl TypeError
            | Some pr \<Rightarrow> Inr (name pr)))"

definition getCrimesInCommunityBounds ::
  "calculationCache \<Rightarrow> community \<Rightarrow> spatialIndex \<Rightarrow> number
     \<Rightarrow> (error + crime list \<times> calculationCache) option"
where
  \<comment> \<open>\<open>Some (Inl e)\<close>: the call throws \<open>e\<close>; \<open>Some (Inr (crimes, cache))\<close>: it returns
      \<open>crimes\<close> and leaves the cache as \<open>cache\<close>; \<open>None\<close>: its loops do not end;
      \<open>key\<close> is the local \<open>communityId\<close>\<close>
  "getCrimesInCommunityBounds cache c index gridSize =
     (case boundsKey c of
        Inl e \<Rightarrow> Some (Inl e)
      | Inr key \<Rightarrow>
     (case communityBounds cache key of
        Some b \<Rightarrow>
          (case boundsCrimes index gridSize b of
             None \<Rightarrow> None
           | Some crimes \<Rightarrow> Some (Inr (crimes, cache)))
      | None \<Rightarrow>
          (case calculateCommunityBounds c of
             None \<Rightarrow> Some (Inr ([], cache))
           | Some b \<Rightarrow>
               (case boundsCrimes index gridSize b of
                  None \<Rightarrow> None
                | Some crimes \<Rightarrow>
                    Some (Inr (crimes,
                          cache\<lparr>communityBounds := (communityBounds cache)(key \<mapsto> b)\<rparr>))))))"

section \<open>Point in polygon\<close>

definition isPointOnLineSegment ::
  "number \<Rightarrow> number \<Rightarrow> number \<Rightarrow> number \<Rightarrow> number \<Rightarrow> number \<Rightarrow> bool"
where
  "isPointOnLineSegment px py x1 y1 x2 y2 =
     (if px < jsub (min x1 x2) tolerance \<or> jadd (max x1 x2) tolerance < px \<or>
         py < jsub (min y1 y2) tolerance \<or> jadd (max y1 y2) tolerance < py
      then False
      else
        let crossProduct = jsub (jmul (jsub px x1) (jsub y2 y1)) (jmul (jsub py y1) (jsub x2 x1))
        in \<bar>crossProduct\<bar> < tolerance)"

definition rayIntersects :: "number \<Rightarrow> number \<Rightarrow> vertex \<Rightarrow> vertex \<Rightarrow> bool" where
  \<comment> \<open>the \<open>intersect\<close> of the loop body, for the edge between \<open>polygon[i]\<close> and
      \<open>polygon[j]\<close>; \<open>&&\<close> evaluates the division only when \<open>yi \<noteq> yj\<close>\<close>
  "rayIntersects lat lon vi vj =
     (let xi = snd vi; yi = fst vi; xj = snd vj; yj = fst vj in
      ((lat < yi) \<noteq> (lat < yj)) \<and>
      lon < jadd (jdiv (jmul (jsub xj xi) (jsub lat yi)) (jsub yj yi)) xi)"

fun edgeLoop :: "number \<Rightarrow> number \<Rightarrow> (vertex \<times> vertex) list \<Rightarrow> bool \<Rightarrow> bool" where
  "edgeLoop lat lon [] inside = inside"
| "edgeLoop lat lon ((vi, vj) # es) inside =
     (if isPointOnLineSegment lat lon (fst vi) (snd vi) (fst vj) (snd vj) then True
      else edgeLoop lat lon es (if rayIntersects lat lon vi vj then \<not> inside else inside))"

definition polygonEdges :: "vertex list \<Rightarrow> (vertex \<times> vertex) list" where
  \<comment> \<open>the pairs \<open>(polygon[i], polygon[j])\<close> in loop order: \<open>j\<close> starts at the last index
      and then follows \<open>i\<close>\<close>
  "polygonEdges polygon = zip polygon (last polygon # butlast polygon)"

definition pointInPolygon :: "number \<Rightarrow> number \<Rightarrow> vertex list \<Rightarrow> bool" where
  "pointInPolygon lat lon polygon =
     (if length polygon < 3 then False
      else edgeLoop lat lon (polygonEdges polygon) False)"

section \<open>Period and category classification\<close>

definition getPeriodType :: "clock \<Rightarrow> timeRange \<Rightarrow> js_date \<Rightarrow> period" where
  "getPeriodType clk timeRange crimeDate =
     (case timeRange of
        Months6 \<Rightarrow>
          if sixMonthsAgo clk \<le> getTime crimeDate \<and> getTime crimeDate \<le> dynamicNow clk
          then Recent
          else if twelveMonthsAgo clk \<le> getTime crimeDate \<and> getTime crimeDate < sixMonthsAgo clk
          then Previous
          else Other
      | Year1 \<Rightarrow>
          if getFullYear crimeDate = 2025 then Recent
          else if getFullYear crimeDate = 2024 then Previous
          else Other
      | Years2 \<Rightarrow>
          let currentYear = 2025 in
          if getFullYear crimeDate = currentYear \<or> getFullYear crimeDate = currentYear - 1
          then Recent
          else if getFullYear crimeDate = currentYear - 2 \<or> getFullYear crimeDate = currentYear - 3
          then Previous
          else Other)"

definition js_includes :: "string \<Rightarrow> string \<Rightarrow> bool" where
  \<comment> \<open>\<open>s.includes(t)\<close>: \<open>t\<close> occurs in \<open>s\<close> as a contiguous run of characters\<close>
  "js_includes s t = sublist t s"

definition otherSpecificTypes :: "string list" where
  "otherSpecificTypes =
     [''Burglary Residential'', ''Motor Vehicle Theft'', ''Theft from Vehicle'',
      ''Vandalism/Criminal Mischief'']"

fun typeLoop :: "string \<Rightarrow> string list \<Rightarrow> bool" where
  "typeLoop crimeDescription [] = False"
| "typeLoop crimeDescription (t # ts) =
     (if t = ''Violent Crime'' then
        (if \<not> list_ex (\<lambda>otherType. js_includes crimeDescription otherType) otherSpecificTypes
         then True
         else typeLoop crimeDescription ts)
      else if js_includes crimeDescription t then True
      else typeLoop crimeDescription ts)"

definition isCrimeTypeSelected :: "string list option \<Rightarrow> crime \<Rightarrow> bool" where
  "isCrimeTypeSelected selectedCrimeTypes c =
     (case selectedCrimeTypes of
        None \<Rightarrow> True
      | Some types \<Rightarrow> if types = [] then True else typeLoop (text_general_code c) types)"

fun partitionCrimes ::
  "clock \<Rightarrow> timeRange \<Rightarrow> string list option \<Rightarrow> crime list \<Rightarrow> crime list \<times> crime list"
where
  "partitionCrimes clk timeRange sel [] = ([], [])"
| "partitionCrimes clk timeRange sel (c # cs) =
     (let (recentPeriodCrimes, previousPeriodCrimes) = partitionCrimes clk timeRange sel cs in
      if \<not> isCrimeTypeSelected sel c then (recentPeriodCrimes, previousPeriodCrimes)
      else
        (case dispatch_date_time c of
           None \<Rightarrow> (recentPeriodCrimes, previousPeriodCrimes)
         | Some crimeDate \<Rightarrow>
             (case getPeriodType clk timeRange crimeDate of
                Recent \<Rightarrow> (c # recentPeriodCrimes, previousPeriodCrimes)
              | Previous \<Rightarrow> (recentPeriodCrimes, c # previousPeriodCrimes)
              | Other \<Rightarrow> (recentPeriodCrimes, previousPeriodCrimes))))"

section \<open>Trend aggregation\<close>

definition crimeInCommunity :: "vertex list \<Rightarrow> crime \<Rightarrow> bool" where
  \<comment> \<open>the predicate of the two \<open>filter\<close> calls\<close>
  "crimeInCommunity communityCoords c =
     (case coordinates c of
        None \<Rightarrow> False
      | Some crimeCoords \<Rightarrow>
          if length crimeCoords < 2 then False
          else pointInPolygon (crimeCoords ! 1) (crimeCoords ! 0) communityCoords)"

definition rawChangePercent :: "nat \<Rightarrow> nat \<Rightarrow> number" where
  \<comment> \<open>\<open>changePercent\<close> before rounding:
      \<open>((recentCount - previousCount) / previousCount) * 100\<close>, or 0\<close>
  "rawChangePercent nRecent nPrevious =
     (if 0 < nPrevious
      then jmul (jdiv (jsub (of_nat nRecent) (of_nat nPrevious)) (of_nat nPrevious)) 100
      else 0)"

definition countTypes :: "crime list \<Rightarrow> string \<rightharpoonup> nat" where
  \<comment> \<open>the counts by \<open>text_general_code\<close>; the order of the keys is not modelled\<close>
  "countTypes cs =
     foldl (\<lambda>m c. if text_general_code c \<noteq> []
                   then m(text_general_code c \<mapsto>
                          (case m (text_general_code c) of None \<Rightarrow> 0 | Some n \<Rightarrow> n) + 1)
                   else m)
           Map.empty cs"

definition displayName :: "community \<Rightarrow> string" where
  \<comment> \<open>\<open>properties?.MAPNAME || properties?.name || 'Unknown Community'\<close>\<close>
  "displayName c =
     (case properties c of
        None \<Rightarrow> ''Unknown Community''
      | Some pr \<Rightarrow> orElse (MAPNAME pr) (orElse (name pr) ''Unknown Community''))"

definition trendKey :: "community \<Rightarrow> string" where
  \<comment> \<open>\<open>community.id || communityName\<close>\<close>
  "trendKey c = orElse (community_id c) (displayName c)"

definition zeroTrend :: "community \<Rightarrow> trend" where
  "zeroTrend c =
     \<lparr>communityId = trendKey c, communityName = displayName c,
      recentCount = 0, previousCount = 0, changePercent = 0,
      crimeTypes = Map.empty,
      timeRanges = [Months6 \<mapsto> \<lparr>recent = 0, previous = 0, rangeChangePercent = 0\<rparr>]\<rparr>"

text \<open>
  The callback of \<open>communities.features.forEach\<close>, on the state it reads and writes:
  the \<open>trends\<close> object and the cache. It returns the new state (\<open>Inr\<close>), or throws
  out of the \<open>forEach\<close> (\<open>Inl\<close>, with the state reached when it throws), or does not
  return (\<open>None\<close>).
\<close>

definition processCommunity ::
  "timeRange \<Rightarrow> spatialIndex \<Rightarrow> spatialIndex \<Rightarrow> trends \<times> calculationCache \<Rightarrow> community
     \<Rightarrow> (error \<times> (trends \<times> calculationCache) + trends \<times> calculationCache) option"
where
  \<comment> \<open>the body of \<open>communities.features.forEach\<close>; \<open>nRecent\<close>, \<open>nPrevious\<close>,
      \<open>rawPercent\<close> and \<open>rangeResult\<close> are the locals \<open>recentCount\<close>, \<open>previousCount\<close>,
      \<open>changePercent\<close> and \<open>timeRangeResult\<close>\<close>
  "processCommunity timeRange recentSpatialIndex previousSpatialIndex st c =
     (let trends = fst st; cache = snd st;
          communityCoords = getPolygonCoordinates (geometry c)
      in
      if length communityCoords < 3
      then Some (Inr (trends(trendKey c \<mapsto> zeroTrend c), cache))
      else
        (case getCrimesInCommunityBounds cache c recentSpatialIndex defaultGridSize of
           None \<Rightarrow> None
         | Some (Inl e) \<Rightarrow> Some (Inl (e, (trends, cache)))
         | Some (Inr (candidateRecentCrimes, cache1)) \<Rightarrow>
        (case getCrimesInCommunityBounds cache1 c previousSpatialIndex defaultGridSize of
           None \<Rightarrow> None
         | Some (Inl e) \<Rightarrow> Some (Inl (e, (trends, cache1)))
         | Some (Inr (candidatePreviousCrimes, cache2)) \<Rightarrow>
        let communityRecentCrimes = filter (crimeInCommunity communityCoords) candidateRecentCrimes;
            communityPreviousCrimes =
              filter (crimeInCommunity communityCoords) candidatePreviousCrimes;
            nRecent = length communityRecentCrimes;
            nPrevious = length communityPreviousCrimes;
            rawPercent = rawChangePercent nRecent nPrevious;
            rangeResult =
              \<lparr>recent = nRecent, previous = nPrevious,
               rangeChangePercent = min 100 (of_int (Math_round rawPercent))\<rparr>;
            existingTimeRanges =
              (case trends (trendKey c) of None \<Rightarrow> Map.empty | Some t \<Rightarrow> timeRanges t)
        in
        Some (Inr (trends(trendKey c \<mapsto>
                \<lparr>communityId = trendKey c, communityName = displayName c,
                 recentCount = nRecent, previousCount = nPrevious,
                 changePercent = min 100 (of_int (Math_round rawPercent)),
                 crimeTypes = countTypes communityRecentCrimes,
                 timeRanges = existingTimeRanges(timeRange \<mapsto> rangeResult)\<rparr>),
              cache2)))))"

fun forEachCommunity ::
  "('s \<Rightarrow> community \<Rightarrow> (error \<times> 's + 's) option)
     \<Rightarrow> 's \<Rightarrow> community list \<Rightarrow> (error \<times> 's + 's) option"
where
  \<comment> \<open>\<open>communities.features.forEach\<close>: a throw of the callback ends the iteration\<close>
  "forEachCommunity body st [] = Some (Inr st)"
| "forEachCommunity body st (c # cs) =
     (case body st c of
        None \<Rightarrow> None
      | Some (Inl thrown) \<Rightarrow> Some (Inl thrown)
      | Some (Inr st') \<Rightarrow> forEachCommunity body st' cs)"

definition calculateSafetyTrends ::
  "clock \<Rightarrow> calculationCache \<Rightarrow> community collection \<Rightarrow> crime collection \<Rightarrow> timeRange
     \<Rightarrow> string list option \<Rightarrow> (trends \<times> calculationCache) option"
where
  \<comment> \<open>\<open>trends\<close> starts as the empty object on every call; the two early \<open>return trends\<close>
      leave the cache as it is; the \<open>catch\<close> around the whole body returns the \<open>trends\<close>
      written before the throw and does not reach the assignment of
      \<open>calculationCache.results\<close>\<close>
  "calculateSafetyTrends clk cache communities crimeData timeRange selectedCrimeTypes =
     (case communities of
        Absent \<Rightarrow> Some (Map.empty, cache)
      | NoFeatures \<Rightarrow> Some (Map.empty, cache)
      | Features communityFeatures \<Rightarrow>
          (case crimeData of
             Absent \<Rightarrow> Some (Map.empty, cache)
           | NoFeatures \<Rightarrow> Some (Map.empty, cache)
           | Features crimeFeatures \<Rightarrow>
               if length crimeFeatures = 0 then Some (Map.empty, cache)
               else
                 let (recentPeriodCrimes, previousPeriodCrimes) =
                       partitionCrimes clk timeRange selectedCrimeTypes crimeFeatures;
                     recentSpatialIndex = createSpatialIndex recentPeriodCrimes defaultGridSize;
                     previousSpatialIndex = createSpatialIndex previousPeriodCrimes defaultGridSize
                 in
                 (case forEachCommunity
                         (processCommunity timeRange recentSpatialIndex previousSpatialIndex)
                         (Map.empty, cache) communityFeatures of
                    None \<Rightarrow> None
                  | Some (Inl (e, (trends, cache'))) \<Rightarrow> Some (trends, cache')
                  | Some (Inr (trends, cache')) \<Rightarrow>
                      Some (trends, cache'\<lparr>results := trends\<rparr>))))"

section \<open>Projection on one time window\<close>

definition projectTrend :: "timeRange \<Rightarrow> trend \<Rightarrow> trend" where
  \<comment> \<open>the body of the \<open>forEach\<close> of \<open>getSafetyTrendsForTimeRange\<close>\<close>
  "projectTrend timeRange t =
     (case timeRanges t timeRange of
        Some timeRangeData \<Rightarrow>
          t\<lparr>changePercent :=
               (if 0 < previous timeRangeData
                then jmul (jdiv (jsub (of_nat (recent timeRangeData))
                                      (of_nat (previous timeRangeData)))
                                (of_nat (previous timeRangeData))) 100
                else 0),
            recentCount := recent timeRangeData,
            previousCount := previous timeRangeData\<rparr>
      | None \<Rightarrow> t)"

definition getSafetyTrendsForTimeRange :: "trends \<Rightarrow> timeRange \<Rightarrow> trends" where
  "getSafetyTrendsForTimeRange trends timeRange =
     (\<lambda>communityId. map_option (projectTrend timeRange) (trends communityId))"

section \<open>Notions used in the statements\<close>

definition subRecord :: "trends \<Rightarrow> string \<Rightarrow> timeRange \<Rightarrow> timeRangeResult option" where
  \<comment> \<open>\<open>trends[communityId]?.timeRanges[timeRange]\<close>\<close>
  "subRecord trends cid W = (case trends cid of None \<Rightarrow> None | Some t \<Rightarrow> timeRanges t W)"

definition windowConsistent :: "timeRange \<Rightarrow> trend \<Rightarrow> bool" where
  \<comment> \<open>the two shapes of a record written by a computation for the window \<open>W\<close>: the
      zero record of a degenerate boundary, or counts mirrored in the sub-record of \<open>W\<close>\<close>
  "windowConsistent W t \<longleftrightarrow>
     (\<forall>V. V \<noteq> W \<and> V \<noteq> Months6 \<longrightarrow> timeRanges t V = None) \<and>
     ((recentCount t = 0 \<and> previousCount t = 0 \<and> changePercent t = 0 \<and>
       timeRanges t = [Months6 \<mapsto> \<lparr>recent = 0, previous = 0, rangeChangePercent = 0\<rparr>]) \<or>
      (timeRanges t W =
         Some \<lparr>recent = recentCount t, previous = previousCount t,
               rangeChangePercent = changePercent t\<rparr> \<and>
       changePercent t =
         min 100 (of_int (Math_round (rawChangePercent (recentCount t) (previousCount t))))))"

definition roundHalfAwayFromZero :: "rat \<Rightarrow> int" where
  \<comment> \<open>the rounding the specification names: a tie goes away from zero\<close>
  "roundHalfAwayFromZero x = (if x < 0 then - \<lfloor>- x + 1 / 2\<rfloor> else \<lfloor>x + 1 / 2\<rfloor>)"

definition edgeSymmetric :: "number \<Rightarrow> number \<Rightarrow> vertex \<times> vertex \<Rightarrow> bool" where
  \<comment> \<open>the two tests of the loop body give the same answers with the endpoints of the
      edge exchanged\<close>
  "edgeSymmetric lat lon e \<longleftrightarrow>
     isPointOnLineSegment lat lon (fst (fst e)) (snd (fst e)) (fst (snd e)) (snd (snd e)) =
     isPointOnLineSegment lat lon (fst (snd e)) (snd (snd e)) (fst (fst e)) (snd (fst e)) \<and>
     rayIntersects lat lon (fst e) (snd e) = rayIntersects lat lon (snd e) (fst e)"

definition cellRangeCrimes :: "spatialIndex \<Rightarrow> number \<Rightarrow> bounds \<Rightarrow> crime list" where
  \<comment> \<open>the points of the cells of a bounding box that lie in the box, cell by cell in the
      order of the two loops\<close>
  "cellRangeCrimes index gridSize b =
     (let startX = \<lfloor>jdiv (minLon b) gridSize\<rfloor>; endX = \<lfloor>jdiv (maxLon b) gridSize\<rfloor>;
          startY = \<lfloor>jdiv (minLat b) gridSize\<rfloor>; endY = \<lfloor>jdiv (maxLat b) gridSize\<rfloor>
      in concat (map (\<lambda>x. concat (map (\<lambda>y. cellCrimes index b (x, y)) [startY..endY]))
                     [startX..endX]))"

definition finalState :: "error \<times> 's + 's \<Rightarrow> 's" where
  \<comment> \<open>the state an iteration ends in, completed or thrown out of\<close>
  "finalState r = (case r of Inl (e, st) \<Rightarrow> st | Inr st \<Rightarrow> st)"

definition trendsOf :: "(trends \<times> calculationCache) option \<Rightarrow> trends" where
  \<comment> \<open>the mapping a call returns; no neighborhood has a record when it does not return\<close>
  "trendsOf r = (case r of None \<Rightarrow> Map.empty | Some st \<Rightarrow> fst st)"

definition cellNumbersExact :: "number \<Rightarrow> bounds \<Rightarrow> bool" where
  \<comment> \<open>the four cell numbers of a bounding box are below \<open>2 ^ 53\<close> in magnitude, so
      that the loop counters \<open>x++\<close> and \<open>y++\<close> of the query count exactly\<close>
  "cellNumbersExact gridSize b \<longleftrightarrow>
     \<bar>jdiv (minLon b) gridSize\<bar> < 2 ^ 53 \<and> \<bar>jdiv (maxLon b) gridSize\<bar> < 2 ^ 53 \<and>
     \<bar>jdiv (minLat b) gridSize\<bar> < 2 ^ 53 \<and> \<bar>jdiv (maxLat b) gridSize\<bar> < 2 ^ 53"

definition boundsCacheExact :: "calculationCache \<Rightarrow> bool" where
  \<comment> \<open>every cached bounding box has exact cell numbers at the default grid size\<close>
  "boundsCacheExact cache \<longleftrightarrow>
     (\<forall>b\<in>ran (communityBounds cache). cellNumbersExact defaultGridSize b)"

definition boundaryExact :: "community \<Rightarrow> bool" where
  \<comment> \<open>so has the bounding box of the boundary, when it has one\<close>
  "boundaryExact c \<longleftrightarrow>
     (case calculateCommunityBounds c of
        None \<Rightarrow> True
      | Some b \<Rightarrow> cellNumbersExact defaultGridSize b)"

definition keyReadable :: "community \<Rightarrow> bool" where
  \<comment> \<open>the boundary has an \<open>id\<close> or a \<open>properties\<close> object: the key of its bounding box
      is read without a throw\<close>
  "keyReadable c \<longleftrightarrow> truthy (community_id c) \<or> properties c \<noteq> None"

section \<open>Example inputs\<close>

definition exampleClock :: clock where
  "exampleClock = \<lparr>dynamicNow = 1000, sixMonthsAgo = 500, twelveMonthsAgo = 0\<rparr>"

definition emptyCache :: calculationCache where
  "emptyCache = \<lparr>communityBounds = Map.empty, results = Map.empty\<rparr>"

definition crimeLabelled :: "string \<Rightarrow> crime" where
  "crimeLabelled label =
     \<lparr>coordinates = Some [0, 0], text_general_code = label,
      dispatch_date_time = Some \<lparr>getTime = 100, getFullYear = 2024\<rparr>\<rparr>"

definition crimeInYear :: "int \<Rightarrow> crime" where
  \<comment> \<open>a point at longitude 0, latitude 0, dispatched in the year \<open>y\<close>\<close>
  "crimeInYear y =
     \<lparr>coordinates = Some [0, 0], text_general_code = ''Thefts'',
      dispatch_date_time = Some \<lparr>getTime = 100, getFullYear = y\<rparr>\<rparr>"

definition exampleTrend :: trend where
  "exampleTrend =
     \<lparr>communityId = ''a'', communityName = ''A'', recentCount = 3, previousCount = 1,
      changePercent = 100, crimeTypes = Map.empty,
      timeRanges = [Year1 \<mapsto> \<lparr>recent = 3, previous = 1, rangeChangePercent = 100\<rparr>]\<rparr>"

definition triangle :: community where
  \<comment> \<open>the ring \<open>[[0, 0], [1/256, 0], [0, 1/256]]\<close> of \<open>[lon, lat]\<close> positions\<close>
  "triangle =
     \<lparr>community_id = Some ''tri'',
      properties = Some \<lparr>MAPNAME = Some ''Triangle'', name = Some ''Triangle''\<rparr>,
      geometry = Some (Polygon [[[0, 0], [1 / 256, 0], [0, 1 / 256]]])\<rparr>"

definition segment :: community where
  \<comment> \<open>a boundary whose ring has two positions only\<close>
  "segment =
     \<lparr>community_id = Some ''seg'',
      properties = Some \<lparr>MAPNAME = Some ''Segment'', name = Some ''Segment''\<rparr>,
      geometry = Some (Polygon [[[0, 0], [1, 1]]])\<rparr>"

definition bare :: community where
  \<comment> \<open>the triangle's ring on a feature with no \<open>id\<close> and no \<open>properties\<close>\<close>
  "bare =
     \<lparr>community_id = None, properties = None,
      geometry = Some (Polygon [[[0, 0], [1 / 256, 0], [0, 1 / 256]]])\<rparr>"

definition nearEdgeCrime :: crime where
  \<comment> \<open>a point at latitude \<open>1/512\<close>, longitude \<open>-1/262144\<close>: about \<open>0.0000038\<close> degrees
      west of the triangle's edge on the meridian 0\<close>
  "nearEdgeCrime =
     \<lparr>coordinates = Some [- (1 / 262144), 1 / 512], text_general_code = ''Thefts'',
      dispatch_date_time = Some \<lparr>getTime = 100, getFullYear = 2025\<rparr>\<rparr>"

definition firstCall :: "(trends \<times> calculationCache) option" where
  \<comment> \<open>the window \<open>'1year'\<close>, on an empty cache\<close>
  "firstCall =
     calculateSafetyTrends exampleClock emptyCache (Features [triangle])
       (Features [crimeInYear 2024]) Year1 None"

definition secondCall :: "(trends \<times> calculationCache) option" where
  \<comment> \<open>then the window \<open>'2years'\<close> on the same data, with the cache the first call left\<close>
  "secondCall =
     (case firstCall of
        None \<Rightarrow> None
      | Some (trends, cache) \<Rightarrow>
          calculateSafetyTrends exampleClock cache (Features [triangle])
            (Features [crimeInYear 2024]) Years2 None)"

definition nineCrimes :: "crime list" where
  \<comment> \<open>eight points of 2024 and one of 2025, all at the triangle's vertex \<open>(0, 0)\<close>\<close>
  "nineCrimes =
     [crimeInYear 2024, crimeInYear 2024, crimeInYear 2024, crimeInYear 2024,
      crimeInYear 2024, crimeInYear 2024, crimeInYear 2024, crimeInYear 2024,
      crimeInYear 2025]"

section \<open>Rounding to the nearest double\<close>

lemma powi_nat: "0 \<le> k \<Longrightarrow> (2::rat) powi k = 2 ^ nat k"
  by (simp add: power_int_def)

lemma ilog2_bounds:
  assumes "0 < x"
  shows "2 powi (ilog2 x) \<le> x" and "x < 2 powi (ilog2 x + 1)"
proof -
  obtain a b where q: "quotient_of x = (a, b)" by (cases "quotient_of x")
  have b: "0 < b" using q by (rule quotient_of_denom_pos)
  have x: "x = of_int a / of_int b" using q by (rule quotient_of_div)
  have a: "0 < a"
    using assms b unfolding x by (simp add: zero_less_divide_iff)
  have la: "1 \<le> bitlen a" and lb: "1 \<le> bitlen b"
    using a b by (auto simp: bitlen_alt_def)
  from bitlen_bounds[OF a] have "(2::int) ^ nat (bitlen a - 1) \<le> a" "a < 2 ^ nat (bitlen a)"
    by auto
  then have "(of_int (2 ^ nat (bitlen a - 1)) :: rat) \<le> of_int a"
      "(of_int a :: rat) < of_int (2 ^ nat (bitlen a))"
    unfolding of_int_le_iff of_int_less_iff by auto
  then have A: "(2::rat) powi (bitlen a - 1) \<le> of_int a" "(of_int a :: rat) < 2 powi (bitlen a)"
    using la by (simp_all add: powi_nat)
  from bitlen_bounds[OF b] have "(2::int) ^ nat (bitlen b - 1) \<le> b" "b < 2 ^ nat (bitlen b)"
    by auto
  then have "(of_int (2 ^ nat (bitlen b - 1)) :: rat) \<le> of_int b"
      "(of_int b :: rat) < of_int (2 ^ nat (bitlen b))"
    unfolding of_int_le_iff of_int_less_iff by auto
  then have B: "(2::rat) powi (bitlen b - 1) \<le> of_int b" "(of_int b :: rat) < 2 powi (bitlen b)"
    using lb by (simp_all add: powi_nat)
  define d where "d = bitlen a - bitlen b"
  have pos: "\<And>k. (0::rat) < 2 powi k" by (simp add: zero_less_power_int)
  have bpos: "(0::rat) < of_int b" using b by simp
  have up: "x < 2 powi (d + 1)"
  proof -
    have "x * 2 powi (bitlen b - 1) \<le> x * of_int b"
      using B(1) assms by (simp add: mult_left_mono)
    also have "\<dots> = of_int a" using bpos by (simp add: x)
    also have "\<dots> < 2 powi (bitlen a)" by (rule A(2))
    also have "\<dots> = 2 powi (d + 1) * 2 powi (bitlen b - 1)"
      by (simp add: d_def flip: power_int_add)
    finally show ?thesis using pos[of "bitlen b - 1"] by (simp add: mult_less_cancel_right)
  qed
  have lo: "2 powi (d - 1) \<le> x"
  proof -
    have "2 powi (d - 1) * 2 powi (bitlen b) = (2::rat) powi (bitlen a - 1)"
      by (simp add: d_def flip: power_int_add)
    also have "\<dots> \<le> of_int a" by (rule A(1))
    also have "\<dots> = x * of_int b" using bpos by (simp add: x)
    also have "\<dots> \<le> x * 2 powi (bitlen b)"
      using B(2) assms by (simp add: mult_left_mono)
    finally show ?thesis using pos[of "bitlen b"] by (simp add: mult_le_cancel_right)
  qed
  have il: "ilog2 x = (if 2 powi d \<le> x then d else d - 1)"
    by (simp add: ilog2_def q d_def Let_def)
  show "2 powi (ilog2 x) \<le> x" using lo by (simp add: il)
  show "x < 2 powi (ilog2 x + 1)" using up by (auto simp add: il not_le)
qed

lemma ilog2_unique:
  assumes "2 powi e \<le> x" "x < 2 powi (e + 1)"
  shows "ilog2 x = e"
proof -
  have "(0::rat) < 2 powi e" by (simp add: zero_less_power_int)
  then have x: "0 < x" using assms(1) by (rule less_le_trans)
  have "(2::rat) powi (ilog2 x) < 2 powi (e + 1)"
    using ilog2_bounds(1)[OF x] assms(2) by simp
  then have 1: "ilog2 x < e + 1"
    by (metis linorder_not_less one_le_numeral power_int_increasing)
  have "(2::rat) powi e < 2 powi (ilog2 x + 1)"
    using ilog2_bounds(2)[OF x] assms(1) by simp
  then have 2: "e < ilog2 x + 1"
    by (metis linorder_not_less one_le_numeral power_int_increasing)
  from 1 2 show ?thesis by simp
qed

lemma ilog2_mono:
  assumes "0 < x" "x \<le> y"
  shows "ilog2 x \<le> ilog2 y"
proof -
  have "(2::rat) powi (ilog2 x) < 2 powi (ilog2 y + 1)"
    using ilog2_bounds(1)[OF assms(1)] ilog2_bounds(2)[of y] assms by simp
  then have "ilog2 x < ilog2 y + 1"
    by (metis linorder_not_less one_le_numeral power_int_increasing)
  then show ?thesis by simp
qed

lemma rne_cases:
  fixes y :: rat
  defines "r \<equiv> y - of_int \<lfloor>y\<rfloor>"
  shows "0 \<le> r" "r < 1"
    "r < 1 / 2 \<Longrightarrow> rne y = \<lfloor>y\<rfloor>"
    "1 / 2 < r \<Longrightarrow> rne y = \<lfloor>y\<rfloor> + 1"
    "r = 1 / 2 \<Longrightarrow> rne y = (if even \<lfloor>y\<rfloor> then \<lfloor>y\<rfloor> else \<lfloor>y\<rfloor> + 1)"
proof -
  show "0 \<le> r" unfolding r_def by simp
  show "r < 1" unfolding r_def by linarith
  show "r < 1 / 2 \<Longrightarrow> rne y = \<lfloor>y\<rfloor>" unfolding r_def rne_def Let_def by simp
  show "1 / 2 < r \<Longrightarrow> rne y = \<lfloor>y\<rfloor> + 1" unfolding r_def rne_def Let_def by simp
  show "r = 1 / 2 \<Longrightarrow> rne y = (if even \<lfloor>y\<rfloor> then \<lfloor>y\<rfloor> else \<lfloor>y\<rfloor> + 1)"
    unfolding r_def rne_def Let_def by simp
qed

lemma rne_err: "\<bar>of_int (rne y) - y\<bar> \<le> 1 / 2"
proof -
  define r where "r = y - of_int \<lfloor>y\<rfloor>"
  have y: "y = of_int \<lfloor>y\<rfloor> + r" by (simp add: r_def)
  note c = rne_cases[of y, folded r_def]
  consider "r < 1 / 2" | "1 / 2 < r" | "r = 1 / 2" by linarith
  then show ?thesis
  proof cases
    case 1
    then show ?thesis using c(1) c(3)[OF 1] y by simp
  next
    case 2
    then show ?thesis using c(2) c(4)[OF 2] y by simp
  next
    case 3
    then show ?thesis using c(5)[OF 3] y by (simp split: if_splits)
  qed
qed

lemma rne_of_int [simp]: "rne (of_int n) = n"
  by (simp add: rne_def)

lemma rne_0 [simp]: "rne 0 = 0"
  using rne_of_int[of 0] by simp

lemma rne_lower: "\<lfloor>y\<rfloor> \<le> rne y"
  unfolding rne_def Let_def by simp

lemma rne_upper: "rne y \<le> \<lfloor>y\<rfloor> + 1"
  unfolding rne_def Let_def by simp

lemma rne_mono:
  assumes "x \<le> y"
  shows "rne x \<le> rne y"
proof (cases "\<lfloor>x\<rfloor> = \<lfloor>y\<rfloor>")
  case True
  have "x - of_int \<lfloor>y\<rfloor> \<le> y - of_int \<lfloor>y\<rfloor>" using assms by simp
  then show ?thesis unfolding rne_def Let_def True by simp
next
  case False
  then have "\<lfloor>x\<rfloor> + 1 \<le> \<lfloor>y\<rfloor>" using floor_mono[OF assms] by simp
  then show ?thesis using rne_upper[of x] rne_lower[of y] by linarith
qed

lemma rne_neg: "rne (- y) = - rne y"
proof (cases "y = of_int \<lfloor>y\<rfloor>")
  case True
  then obtain n where "y = of_int n" ..
  then show ?thesis by (simp flip: of_int_minus)
next
  case False
  define r where "r = y - of_int \<lfloor>y\<rfloor>"
  have f: "\<lfloor>- y\<rfloor> = - \<lfloor>y\<rfloor> - 1"
    using False by (simp add: floor_minus ceiling_altdef)
  have r': "- y - of_int \<lfloor>- y\<rfloor> = 1 - r" by (simp add: f r_def)
  note c = rne_cases[of y, folded r_def]
  note c' = rne_cases[of "- y", unfolded r']
  consider "r < 1 / 2" | "1 / 2 < r" | "r = 1 / 2" by linarith
  then show ?thesis
  proof cases
    case 1
    then have "1 / 2 < 1 - r" by simp
    then show ?thesis using c'(4) c(3)[OF 1] f by simp
  next
    case 2
    then have "1 - r < 1 / 2" by simp
    then show ?thesis using c'(3) c(4)[OF 2] f by simp
  next
    case 3
    then have "1 - r = 1 / 2" by simp
    then show ?thesis using c'(5) c(5)[OF 3] f by simp
  qed
qed

lemma quantum_pos: "0 < quantum x"
  by (simp add: quantum_def zero_less_power_int)

lemma quantum_neg [simp]: "quantum (- x) = quantum x"
  by (simp add: quantum_def)

lemma fl_quantum: "fl x = of_int (rne (x / quantum x)) * quantum x"
  by (simp add: fl_def quantum_def Let_def)

lemma fl_0 [simp]: "fl 0 = 0"
  by (simp add: fl_def)

lemma fl_neg: "fl (- x) = - fl x"
  by (simp add: fl_quantum rne_neg)

lemma fl_ge_grid:
  assumes "of_int n * quantum x \<le> x"
  shows "of_int n * quantum x \<le> fl x"
proof -
  have "of_int n \<le> x / quantum x"
    using assms quantum_pos[of x] by (simp add: pos_le_divide_eq)
  then have "rne (of_int n) \<le> rne (x / quantum x)" by (rule rne_mono)
  then have "(of_int n :: rat) \<le> of_int (rne (x / quantum x))" by simp
  then show ?thesis
    unfolding fl_quantum using quantum_pos[of x] by (simp add: mult_le_cancel_right)
qed

lemma fl_le_grid:
  assumes "x \<le> of_int n * quantum x"
  shows "fl x \<le> of_int n * quantum x"
proof -
  have "x / quantum x \<le> of_int n"
    using assms quantum_pos[of x] by (simp add: pos_divide_le_eq)
  then have "rne (x / quantum x) \<le> rne (of_int n)" by (rule rne_mono)
  then have "(of_int (rne (x / quantum x)) :: rat) \<le> of_int n" by simp
  then show ?thesis
    unfolding fl_quantum using quantum_pos[of x] by (simp add: mult_le_cancel_right)
qed

lemma fl_nonneg: "0 \<le> x \<Longrightarrow> 0 \<le> fl x"
  using fl_ge_grid[of 0 x] by simp

lemma fl_nonpos: "x \<le> 0 \<Longrightarrow> fl x \<le> 0"
  using fl_le_grid[of x 0] by simp

lemma fl_err_quantum: "\<bar>fl x - x\<bar> \<le> quantum x / 2"
proof -
  have "fl x - x = (of_int (rne (x / quantum x)) - x / quantum x) * quantum x"
    using quantum_pos[of x] by (simp add: fl_quantum algebra_simps)
  then have "\<bar>fl x - x\<bar> = \<bar>of_int (rne (x / quantum x)) - x / quantum x\<bar> * quantum x"
    using quantum_pos[of x] by (simp add: abs_mult)
  also have "\<dots> \<le> (1 / 2) * quantum x"
    using rne_err[of "x / quantum x"] quantum_pos[of x] by (intro mult_right_mono) simp_all
  finally show ?thesis by simp
qed

lemma powi_grid:
  assumes "k \<le> e"
  shows "(2::rat) powi e = of_int (2 ^ nat (e - k)) * 2 powi k"
proof -
  have "(2::rat) powi e = 2 powi (e - k) * 2 powi k" by (simp flip: power_int_add)
  then show ?thesis using assms by (simp add: powi_nat)
qed

lemma quantum_le: "x \<noteq> 0 \<Longrightarrow> quantum x / 2 \<le> max (\<bar>x\<bar> / 2 ^ 53) (1 / 2 ^ 1075)"
proof -
  assume "x \<noteq> 0"
  then have x: "0 < \<bar>x\<bar>" by simp
  define e where "e = ilog2 \<bar>x\<bar>"
  have e: "2 powi e \<le> \<bar>x\<bar>" unfolding e_def using x by (rule ilog2_bounds)
  show ?thesis
  proof (cases "e - 52 \<le> - 1074")
    case True
    then have "quantum x = 2 powi (- 1074)" by (simp add: quantum_def e_def max_def)
    also have "\<dots> / 2 = 1 / 2 ^ 1075" by (simp add: power_int_def field_simps)
    finally show ?thesis by simp
  next
    case False
    then have "quantum x = 2 powi (e - 52)" by (simp add: quantum_def e_def max_def)
    also have "\<dots> = 2 powi e / 2 ^ 52" by (simp add: power_int_diff)
    finally have "quantum x / 2 = 2 powi e / 2 ^ 53" by simp
    also have "\<dots> \<le> \<bar>x\<bar> / 2 ^ 53" using e by (simp add: divide_right_mono)
    finally show ?thesis by simp
  qed
qed

lemma fl_err: "\<bar>fl x - x\<bar> \<le> max (\<bar>x\<bar> / 2 ^ 53) (1 / 2 ^ 1075)"
proof (cases "x = 0")
  case True
  then show ?thesis by simp
next
  case False
  show ?thesis using fl_err_quantum[of x] quantum_le[OF False] by linarith
qed

lemma fl_mono_pos:
  assumes "0 < x" "x \<le> y"
  shows "fl x \<le> fl y"
proof -
  have y: "0 < y" using assms by simp
  define ex where "ex = ilog2 x"
  define ey where "ey = ilog2 y"
  define kx where "kx = max (ex - 52) (- 1074)"
  define ky where "ky = max (ey - 52) (- 1074)"
  have qx: "quantum x = 2 powi kx" using assms(1) by (simp add: quantum_def kx_def ex_def)
  have qy: "quantum y = 2 powi ky" using y by (simp add: quantum_def ky_def ey_def)
  have exy: "ex \<le> ey" unfolding ex_def ey_def using assms by (rule ilog2_mono)
  show ?thesis
  proof (cases "kx = ky")
    case True
    then have q: "quantum x = quantum y" by (simp add: qx qy)
    have "x / quantum y \<le> y / quantum y"
      using assms(2) quantum_pos[of y] by (simp add: divide_right_mono)
    then have "rne (x / quantum y) \<le> rne (y / quantum y)" by (rule rne_mono)
    then show ?thesis
      unfolding fl_quantum q using quantum_pos[of y] by (simp add: mult_le_cancel_right)
  next
    case False
    then have lt: "ex < ey" and ky: "ky = ey - 52" and ky': "- 1074 < ey - 52"
      using exy by (auto simp: kx_def ky_def max_def split: if_splits)
    have "x < 2 powi (ex + 1)" unfolding ex_def using assms(1) by (rule ilog2_bounds)
    also have "\<dots> \<le> 2 powi ey" using lt by (intro power_int_increasing) simp_all
    finally have xe: "x \<le> 2 powi ey" by simp
    have kxe: "kx \<le> ey" using lt ky' by (simp add: kx_def)
    have "fl x \<le> of_int (2 ^ nat (ey - kx)) * quantum x"
      by (rule fl_le_grid) (use xe powi_grid[OF kxe] qx in simp)
    then have 1: "fl x \<le> 2 powi ey" using powi_grid[OF kxe] qx by simp
    have ye: "2 powi ey \<le> y" unfolding ey_def using y by (rule ilog2_bounds)
    have kye: "ky \<le> ey" by (simp add: ky)
    have "of_int (2 ^ nat (ey - ky)) * quantum y \<le> fl y"
      by (rule fl_ge_grid) (use ye powi_grid[OF kye] qy in simp)
    then have 2: "2 powi ey \<le> fl y" using powi_grid[OF kye] qy by simp
    from 1 2 show ?thesis by simp
  qed
qed

lemma fl_mono:
  assumes "x \<le> y"
  shows "fl x \<le> fl y"
proof -
  consider "0 < x" | "x \<le> 0" "0 \<le> y" | "y < 0" by linarith
  then show ?thesis
  proof cases
    case 1
    then show ?thesis using assms by (rule fl_mono_pos)
  next
    case 2
    then show ?thesis using fl_nonpos[of x] fl_nonneg[of y] by simp
  next
    case 3
    then have "fl (- y) \<le> fl (- x)" using assms by (intro fl_mono_pos) simp_all
    then show ?thesis by (simp add: fl_neg)
  qed
qed

lemma fl_exact_pos:
  assumes "0 < m" "m < 2 ^ 53" "- 1074 \<le> k"
  shows "fl (of_int m * 2 powi k) = of_int m * 2 powi k"
proof -
  define x :: rat where "x = of_int m * 2 powi k"
  have p: "(0::rat) < 2 powi k" by (simp add: zero_less_power_int)
  have x: "0 < x" unfolding x_def using assms(1) p by simp
  define e where "e = ilog2 x"
  define kq where "kq = max (e - 52) (- 1074)"
  have q: "quantum x = 2 powi kq" using x by (simp add: quantum_def kq_def e_def)
  have "(of_int m :: rat) < of_int (2 ^ 53)" using assms(2) by (simp only: of_int_less_iff)
  then have m: "(of_int m :: rat) < 2 ^ 53" by simp
  have "2 powi e \<le> x" unfolding e_def using x by (rule ilog2_bounds)
  also have "x < 2 ^ 53 * 2 powi k"
    unfolding x_def using m p by (rule mult_strict_right_mono)
  also have "\<dots> = 2 powi (53 + k)" by (simp add: power_int_add)
  finally have "e < 53 + k"
    by (metis linorder_not_less one_le_numeral power_int_increasing)
  then have kk: "kq \<le> k" using assms(3) by (simp add: kq_def)
  have g: "x = of_int (m * 2 ^ nat (k - kq)) * 2 powi kq"
    unfolding x_def by (subst powi_grid[OF kk]) simp
  have nz: "(2::rat) powi kq \<noteq> 0" by simp
  have "x / 2 powi kq = of_int (m * 2 ^ nat (k - kq))"
    by (subst g) (simp only: nonzero_mult_div_cancel_right[OF nz])
  then have "fl x = of_int (m * 2 ^ nat (k - kq)) * 2 powi kq"
    unfolding fl_quantum[of x] q by (simp only: rne_of_int)
  then have "fl x = x" using g by simp
  then show ?thesis by (simp add: x_def)
qed

lemma fl_exact:
  assumes "\<bar>m\<bar> < 2 ^ 53" "- 1074 \<le> k"
  shows "fl (of_int m * 2 powi k) = of_int m * 2 powi k"
proof -
  consider "0 < m" | "m = 0" | "m < 0" by linarith
  then show ?thesis
  proof cases
    case 1
    then show ?thesis using assms by (intro fl_exact_pos) simp_all
  next
    case 2
    then show ?thesis by simp
  next
    case 3
    then have "fl (of_int (- m) * 2 powi k) = of_int (- m) * 2 powi k"
      using assms by (intro fl_exact_pos) simp_all
    then show ?thesis using fl_neg[of "of_int m * 2 powi k"] by simp
  qed
qed

lemma fl_of_int: "\<bar>m\<bar> < 2 ^ 53 \<Longrightarrow> fl (of_int m) = of_int m"
  using fl_exact[of m 0] by simp


lemma fl_numeral [simp]: "\<bar>numeral n :: int\<bar> < 2 ^ 53 \<Longrightarrow> fl (numeral n) = numeral n"
  using fl_of_int[of "numeral n"] by simp

lemma fl_neg_numeral [simp]:
  "\<bar>numeral n :: int\<bar> < 2 ^ 53 \<Longrightarrow> fl (- numeral n) = - numeral n"
  using fl_of_int[of "- numeral n"] by simp

lemma fl_1 [simp]: "fl 1 = 1"
  using fl_of_int[of 1] by simp

lemma fl_of_nat: "n < 2 ^ 53 \<Longrightarrow> fl (of_nat n) = of_nat n"
  using fl_of_int[of "int n"] by simp

section \<open>Malformed input\<close>

text \<open>
  C9. When the neighborhood collection or the point dataset is absent or has no
  \<open>features\<close> field, \<open>calculateSafetyTrends\<close> returns the empty trend mapping: no
  neighborhood has a record, nothing is thrown, and the cache is left as it was.
\<close>

theorem malformed_input_empty:
  assumes "communities = Absent \<or> communities = NoFeatures \<or>
           crimeData = Absent \<or> crimeData = NoFeatures"
  shows "calculateSafetyTrends clk cache communities crimeData timeRange sel =
           Some (Map.empty, cache)"
  using assms by (auto simp: calculateSafetyTrends_def split: collection.splits)

theorem malformed_input_empty_witness:
  "calculateSafetyTrends exampleClock emptyCache (Features []) NoFeatures Year1 None
     = Some (Map.empty, emptyCache) \<and>
   calculateSafetyTrends exampleClock emptyCache Absent (Features [crimeLabelled ''Thefts'']) Year1 None
     = Some (Map.empty, emptyCache)"
  using malformed_input_empty[of "Features []" NoFeatures exampleClock emptyCache Year1 None]
    malformed_input_empty[of Absent "Features [crimeLabelled ''Thefts'']" exampleClock emptyCache
      Year1 None]
  by simp

section \<open>Projection on one time window\<close>

text \<open>
  C10. For every trend mapping and window token: a neighborhood whose record has a
  sub-record for the window is returned with \<open>recentCount\<close> and \<open>previousCount\<close>
  taken from the sub-record and \<open>changePercent\<close> recomputed as
  \<open>(recent - previous) / previous * 100\<close> (in double arithmetic, neither rounded to
  an integer nor capped at 100) when \<open>previous > 0\<close>, and 0 when \<open>previous = 0\<close>;
  the other fields are kept. A neighborhood whose record has no sub-record for the
  window is returned unchanged.
\<close>

theorem projection_behaviour:
  assumes "trends cid = Some t"
  shows "case timeRanges t W of
           None \<Rightarrow> getSafetyTrendsForTimeRange trends W cid = Some t
         | Some d \<Rightarrow>
             (\<exists>t'. getSafetyTrendsForTimeRange trends W cid = Some t' \<and>
                recentCount t' = recent d \<and> previousCount t' = previous d \<and>
                changePercent t' =
                  (if 0 < previous d
                   then jmul (jdiv (jsub (of_nat (recent d)) (of_nat (previous d)))
                                   (of_nat (previous d))) 100
                   else 0) \<and>
                communityId t' = communityId t \<and> communityName t' = communityName t \<and>
                crimeTypes t' = crimeTypes t \<and> timeRanges t' = timeRanges t)"
  using assms
  by (simp add: getSafetyTrendsForTimeRange_def projectTrend_def split: option.splits)

theorem projection_behaviour_witness:
  "map_option changePercent
     (getSafetyTrendsForTimeRange [''a'' \<mapsto> exampleTrend] Year1 ''a'') = Some 200 \<and>
   getSafetyTrendsForTimeRange [''a'' \<mapsto> exampleTrend] Years2 ''a'' = Some exampleTrend"
proof -
  have a: "[''a'' \<mapsto> exampleTrend] ''a'' = Some exampleTrend" by simp
  have 1: "timeRanges exampleTrend Year1 = Some \<lparr>recent = 3, previous = 1, rangeChangePercent = 100\<rparr>"
    by (simp add: exampleTrend_def)
  have 2: "timeRanges exampleTrend Years2 = None" by (simp add: exampleTrend_def)
  have v: "jmul (jdiv (jsub 3 1) 1) 100 = 200" by (simp add: jmul_def jdiv_def jsub_def)
  show ?thesis
    using projection_behaviour[of "[''a'' \<mapsto> exampleTrend]" "''a''" exampleTrend Year1, OF a]
      projection_behaviour[of "[''a'' \<mapsto> exampleTrend]" "''a''" exampleTrend Years2, OF a]
    by (auto simp: 1 2 v)
qed

section \<open>Category filter\<close>

lemma typeLoop_iff:
  "typeLoop d ts \<longleftrightarrow>
     (\<exists>t\<in>set ts. if t = ''Violent Crime''
                   then \<forall>otherType\<in>set otherSpecificTypes. \<not> js_includes d otherType
                   else js_includes d t)"
  by (induction ts) (auto simp: list_ex_iff)

text \<open>
  C7, as stated, lets a record match whenever its label contains a selected category,
  the sentinel included. The code tests the sentinel by the exclusion list alone: a
  label that contains both \<open>Violent Crime\<close> and an excluded type is rejected when
  \<open>Violent Crime\<close> is the only selection.
\<close>

theorem category_filter_counterexample:
  "js_includes ''Violent Crime, Theft from Vehicle'' ''Violent Crime'' \<and>
   \<not> isCrimeTypeSelected (Some [''Violent Crime''])
       (crimeLabelled ''Violent Crime, Theft from Vehicle'')"
  by (simp add: isCrimeTypeSelected_def crimeLabelled_def js_includes_def otherSpecificTypes_def
      sublist_code prefix_code)

text \<open>
  C7, amended. With no selection (absent or empty) every record matches. Otherwise a
  record matches if and only if, for some selected category, either the category is the
  sentinel \<open>Violent Crime\<close> and the label contains none of the four excluded types, or
  the category is not the sentinel and the label contains it (case-sensitive).
\<close>

theorem category_filter_semantics:
  "isCrimeTypeSelected sel c \<longleftrightarrow>
     (case sel of
        None \<Rightarrow> True
      | Some types \<Rightarrow>
          types = [] \<or>
          (\<exists>t\<in>set types.
             (t = ''Violent Crime'' \<and>
              (\<forall>otherType\<in>set otherSpecificTypes.
                 \<not> js_includes (text_general_code c) otherType)) \<or>
             (t \<noteq> ''Violent Crime'' \<and> js_includes (text_general_code c) t)))"
  by (auto simp: isCrimeTypeSelected_def typeLoop_iff split: option.splits if_splits)

theorem category_filter_semantics_witness:
  "isCrimeTypeSelected (Some [''Violent Crime'']) (crimeLabelled ''Aggravated Assault'') \<and>
   \<not> isCrimeTypeSelected (Some [''Violent Crime'']) (crimeLabelled ''Burglary Residential'') \<and>
   isCrimeTypeSelected (Some [''Thefts'']) (crimeLabelled ''Thefts'') \<and>
   isCrimeTypeSelected None (crimeLabelled ''Thefts'')"
  using category_filter_semantics[of "Some [''Violent Crime'']" "crimeLabelled ''Aggravated Assault''"]
    category_filter_semantics[of "Some [''Violent Crime'']" "crimeLabelled ''Burglary Residential''"]
    category_filter_semantics[of "Some [''Thefts'']" "crimeLabelled ''Thefts''"]
    category_filter_semantics[of None "crimeLabelled ''Thefts''"]
  by (simp add: crimeLabelled_def js_includes_def otherSpecificTypes_def sublist_code prefix_code)

section \<open>The loops of the candidate query\<close>

text \<open>
  While the cell numbers stay below \<open>2 ^ 53\<close> in magnitude the counters count exactly:
  the two loops end, and they visit the cells of the bounding box in order.
\<close>

lemma fl_of_int_le: "\<bar>m\<bar> \<le> 2 ^ 53 \<Longrightarrow> fl (of_int m) = of_int m"
proof (cases "\<bar>m\<bar> < 2 ^ 53")
  case True
  then show ?thesis by (rule fl_of_int)
next
  case False
  assume "\<bar>m\<bar> \<le> 2 ^ 53"
  with False have "m = 2 ^ 53 \<or> m = - (2 ^ 53)" by linarith
  then show ?thesis
    using fl_exact[of "2 ^ 52" 1] fl_exact[of "- (2 ^ 52)" 1] by auto
qed

lemma counter_step:
  "- (2 ^ 53) \<le> y \<Longrightarrow> y < 2 ^ 53 \<Longrightarrow> jadd (of_int y) 1 = of_int (y + 1)"
  using fl_of_int_le[of "y + 1"] by (simp add: jadd_def)

lemma yLoop_exact:
  assumes "- (2 ^ 53) \<le> a" "e < 2 ^ 53"
  shows "yLoop index b x (of_int a) (of_int e) crimes =
         Some (crimes @ concat (map (\<lambda>y. cellCrimes index b (\<lfloor>x\<rfloor>, y)) [a..e]))"
  using assms(1)
proof (induction "nat (e + 1 - a)" arbitrary: a crimes)
  case 0
  then have "e < a" by simp
  then show ?case by (subst yLoop.simps) simp
next
  case (Suc n)
  then have le: "a \<le> e" by simp
  have n: "n = nat (e + 1 - (a + 1))" using Suc.hyps(2) by simp
  have a1: "- (2 ^ 53) \<le> a + 1" using Suc.prems by simp
  have st: "jadd (of_int a) 1 = of_int (a + 1)"
    using Suc.prems le assms(2) by (intro counter_step) simp_all
  show ?case
    apply (subst yLoop.simps)
    apply (simp only: st)
    apply (subst Suc.hyps(1)[OF n a1])
    using le by (simp add: upto_rec1[of a e])
qed

lemma xLoop_exact:
  assumes "- (2 ^ 53) \<le> a" "e < 2 ^ 53" "- (2 ^ 53) \<le> sy" "ey < 2 ^ 53"
  shows "xLoop index b (of_int a) (of_int e) (of_int sy) (of_int ey) crimes =
         Some (crimes @ concat (map (\<lambda>x. concat (map (\<lambda>y. cellCrimes index b (x, y)) [sy..ey]))
                                 [a..e]))"
  using assms(1)
proof (induction "nat (e + 1 - a)" arbitrary: a crimes)
  case 0
  then have "e < a" by simp
  then show ?case by (subst xLoop.simps) simp
next
  case (Suc n)
  then have le: "a \<le> e" by simp
  have n: "n = nat (e + 1 - (a + 1))" using Suc.hyps(2) by simp
  have a1: "- (2 ^ 53) \<le> a + 1" using Suc.prems by simp
  have st: "jadd (of_int a) 1 = of_int (a + 1)"
    using Suc.prems le assms(2) by (intro counter_step) simp_all
  show ?case
    apply (subst xLoop.simps)
    apply (simp only: st yLoop_exact[OF assms(3,4)] Option.bind.simps)
    apply (subst Suc.hyps(1)[OF n a1])
    using le by (simp add: upto_rec1[of a e])
qed

lemma boundsCrimes_exact:
  assumes "cellNumbersExact g b"
  shows "boundsCrimes index g b = Some (cellRangeCrimes index g b)"
proof -
  have r: "\<bar>v\<bar> < 2 ^ 53 \<Longrightarrow> - (2 ^ 53) \<le> \<lfloor>v\<rfloor> \<and> \<lfloor>v\<rfloor> < 2 ^ 53" for v :: rat
    by (simp add: le_floor_iff floor_less_iff abs_less_iff)
  show ?thesis
    using assms r[of "jdiv (minLon b) g"] r[of "jdiv (maxLon b) g"]
      r[of "jdiv (minLat b) g"] r[of "jdiv (maxLat b) g"]
    by (simp add: boundsCrimes_def cellRangeCrimes_def cellNumbersExact_def Let_def xLoop_exact)
qed

lemma getCrimesInCommunityBounds_returns:
  assumes "boundsCacheExact cache" "boundaryExact c" "keyReadable c"
  shows "\<exists>crimes cache'. getCrimesInCommunityBounds cache c index defaultGridSize =
           Some (Inr (crimes, cache')) \<and> boundsCacheExact cache'"
proof -
  have "\<exists>k. boundsKey c = Inr k"
    using assms(3)
    by (cases "properties c"; cases "truthy (community_id c)")
       (simp_all add: keyReadable_def boundsKey_def)
  then obtain k where k: "boundsKey c = Inr k" by blast
  show ?thesis
  proof (cases "communityBounds cache k")
    case (Some b)
    then have "cellNumbersExact defaultGridSize b"
      using assms(1) by (auto simp: boundsCacheExact_def ran_def)
    then show ?thesis
      using Some assms(1) k by (simp add: getCrimesInCommunityBounds_def boundsCrimes_exact)
  next
    case None
    show ?thesis
    proof (cases "calculateCommunityBounds c")
      case n: None
      then show ?thesis using None assms(1) k by (simp add: getCrimesInCommunityBounds_def)
    next
      case (Some b)
      then have e: "cellNumbersExact defaultGridSize b"
        using assms(2) by (simp add: boundaryExact_def)
      have "boundsCacheExact (cache\<lparr>communityBounds := (communityBounds cache)(k \<mapsto> b)\<rparr>)"
        using assms(1) e None by (simp add: boundsCacheExact_def)
      then show ?thesis
        using None Some e k by (simp add: getCrimesInCommunityBounds_def boundsCrimes_exact)
    qed
  qed
qed

section \<open>The records one computation writes\<close>

lemma processCommunity_degenerate:
  "length (getPolygonCoordinates (geometry c)) < 3 \<Longrightarrow>
   processCommunity W ri pri st c = Some (Inr ((fst st)(trendKey c \<mapsto> zeroTrend c), snd st))"
  by (simp add: processCommunity_def Let_def)

lemma processCommunity_thrown:
  "processCommunity W ri pri st c = Some (Inl (e, st')) \<Longrightarrow> fst st' = fst st"
  by (auto simp: processCommunity_def Let_def split: if_splits option.splits sum.splits prod.splits)

lemma processCommunity_other:
  "processCommunity W ri pri st c = Some (Inr st') \<Longrightarrow> k \<noteq> trendKey c \<Longrightarrow> fst st' k = fst st k"
  by (auto simp: processCommunity_def Let_def split: if_splits option.splits sum.splits prod.splits)

lemma processCommunity_dom:
  "processCommunity W ri pri st c = Some (Inr st') \<Longrightarrow>
   dom (fst st') = insert (trendKey c) (dom (fst st))"
  by (auto simp: processCommunity_def Let_def split: if_splits option.splits sum.splits prod.splits)

lemma processCommunity_returns:
  assumes "boundsCacheExact (snd st)" "boundaryExact c"
    "\<not> length (getPolygonCoordinates (geometry c)) < 3 \<Longrightarrow> keyReadable c"
  shows "\<exists>st'. processCommunity W ri pri st c = Some (Inr st') \<and> boundsCacheExact (snd st')"
proof (cases "length (getPolygonCoordinates (geometry c)) < 3")
  case True
  then show ?thesis using assms(1) by (simp add: processCommunity_degenerate)
next
  case False
  then have kr: "keyReadable c" by (rule assms(3))
  from getCrimesInCommunityBounds_returns[OF assms(1,2) kr, of ri] obtain cr1 c1 where
    1: "getCrimesInCommunityBounds (snd st) c ri defaultGridSize = Some (Inr (cr1, c1))"
      "boundsCacheExact c1" by blast
  from getCrimesInCommunityBounds_returns[OF 1(2) assms(2) kr, of pri] obtain cr2 c2 where
    2: "getCrimesInCommunityBounds c1 c pri defaultGridSize = Some (Inr (cr2, c2))"
      "boundsCacheExact c2" by blast
  show ?thesis
    using False 1 2 by (simp add: processCommunity_def Let_def)
qed

lemma zeroTrend_consistent: "windowConsistent W (zeroTrend c)"
  by (auto simp: windowConsistent_def zeroTrend_def)

lemma processCommunity_consistent:
  assumes "\<And>k t. fst st k = Some t \<Longrightarrow> windowConsistent W t"
    and "processCommunity W ri pri st c = Some (Inr st')"
  shows "fst st' k = Some t \<Longrightarrow> windowConsistent W t"
proof (cases "k = trendKey c")
  case False
  then show "fst st' k = Some t \<Longrightarrow> windowConsistent W t"
    using assms by (simp add: processCommunity_other)
next
  case True
  assume r: "fst st' k = Some t"
  show "windowConsistent W t"
  proof (cases "length (getPolygonCoordinates (geometry c)) < 3")
    case True
    then show ?thesis using r \<open>k = trendKey c\<close> assms(2)
      using zeroTrend_consistent[of W c] by (auto simp: processCommunity_degenerate)
  next
    case False
    have ex: "\<And>V. V \<noteq> W \<and> V \<noteq> Months6 \<Longrightarrow>
      (case fst st (trendKey c) of None \<Rightarrow> Map.empty | Some t \<Rightarrow> timeRanges t) V = None"
      using assms(1) by (auto simp: windowConsistent_def split: option.splits)
    show ?thesis
      using r False \<open>k = trendKey c\<close> ex assms(2)
      by (auto simp: processCommunity_def Let_def windowConsistent_def
          split: prod.splits option.splits sum.splits)
  qed
qed

lemma forEachCommunity_invariant:
  assumes "forEachCommunity body st cs = Some r" "P st"
    and "\<And>s c s'. P s \<Longrightarrow> body s c = Some (Inr s') \<Longrightarrow> P s'"
    and "\<And>s c e s'. P s \<Longrightarrow> body s c = Some (Inl (e, s')) \<Longrightarrow> P s'"
  shows "P (finalState r)"
  using assms(1,2)
proof (induction cs arbitrary: st)
  case Nil
  then show ?case by (auto simp: finalState_def)
next
  case (Cons c cs)
  show ?case
  proof (cases "body st c")
    case None
    then show ?thesis using Cons.prems(1) by simp
  next
    case (Some o1)
    show ?thesis
    proof (cases o1)
      case (Inl thrown)
      obtain e s' where t: "thrown = (e, s')" by (cases thrown)
      have "P s'" using Cons.prems(2) Some Inl t assms(4)[of st c e s'] by simp
      moreover have "r = Inl (e, s')" using Cons.prems(1) Some Inl t by simp
      ultimately show ?thesis by (simp add: finalState_def)
    next
      case (Inr s1)
      have "P s1" using Cons.prems(2) Some Inr assms(3)[of st c s1] by simp
      moreover have "forEachCommunity body s1 cs = Some r"
        using Cons.prems(1) Some Inr by simp
      ultimately show ?thesis by (rule Cons.IH[rotated])
    qed
  qed
qed

lemma forEachCommunity_consistent:
  assumes "forEachCommunity (processCommunity W ri pri) (Map.empty, cache) cs = Some r"
    and "fst (finalState r) k = Some t"
  shows "windowConsistent W t"
proof -
  have "\<forall>k t. fst (finalState r) k = Some t \<longrightarrow> windowConsistent W t"
    using assms(1)
  proof (rule forEachCommunity_invariant)
    show "\<forall>k t. fst (Map.empty, cache) k = Some t \<longrightarrow> windowConsistent W t" by simp
  next
    fix s c s'
    assume "\<forall>k t. fst s k = Some t \<longrightarrow> windowConsistent W t"
      and "processCommunity W ri pri s c = Some (Inr s')"
    then show "\<forall>k t. fst s' k = Some t \<longrightarrow> windowConsistent W t"
      using processCommunity_consistent[of s W ri pri c s'] by blast
  next
    fix s c e s'
    assume "\<forall>k t. fst s k = Some t \<longrightarrow> windowConsistent W t"
      and "processCommunity W ri pri s c = Some (Inl (e, s'))"
    then show "\<forall>k t. fst s' k = Some t \<longrightarrow> windowConsistent W t"
      using processCommunity_thrown[of W ri pri s c e s'] by simp
  qed
  then show ?thesis using assms(2) by blast
qed

lemma forEachCommunity_returns:
  assumes "boundsCacheExact (snd st)" "\<forall>c\<in>set cs. boundaryExact c"
    "\<forall>c\<in>set cs. \<not> length (getPolygonCoordinates (geometry c)) < 3 \<longrightarrow> keyReadable c"
  shows "\<exists>st'. forEachCommunity (processCommunity W ri pri) st cs = Some (Inr st')"
  using assms
proof (induction cs arbitrary: st)
  case Nil
  then show ?case by simp
next
  case (Cons c cs)
  from processCommunity_returns[of st c W ri pri] Cons.prems obtain s1 where
    s1: "processCommunity W ri pri st c = Some (Inr s1)" "boundsCacheExact (snd s1)" by auto
  from Cons.IH[OF s1(2)] Cons.prems(2,3) obtain st' where
    "forEachCommunity (processCommunity W ri pri) s1 cs = Some (Inr st')" by auto
  then show ?case using s1(1) by simp
qed

lemma calculateSafetyTrends_valid:
  "crimes \<noteq> [] \<Longrightarrow>
   calculateSafetyTrends clk cache (Features cs) (Features crimes) W sel =
   (case forEachCommunity
           (processCommunity W
              (createSpatialIndex (fst (partitionCrimes clk W sel crimes)) defaultGridSize)
              (createSpatialIndex (snd (partitionCrimes clk W sel crimes)) defaultGridSize))
           (Map.empty, cache) cs of
      None \<Rightarrow> None
    | Some (Inl thrown) \<Rightarrow> Some (snd thrown)
    | Some (Inr st') \<Rightarrow> Some (fst st', (snd st')\<lparr>results := fst st'\<rparr>))"
  by (simp add: calculateSafetyTrends_def Let_def split: prod.splits option.splits sum.splits)

lemma calculateSafetyTrends_cases:
  assumes "calculateSafetyTrends clk cache communities crimeData W sel = Some (trs, cache')"
  shows "trs = Map.empty \<or>
   (\<exists>ri pri cs r. forEachCommunity (processCommunity W ri pri) (Map.empty, cache) cs = Some r \<and>
      trs = fst (finalState r))"
proof (cases "\<exists>cs crimes. communities = Features cs \<and> crimeData = Features crimes \<and> crimes \<noteq> []")
  case True
  then obtain cs crimes where
    v: "communities = Features cs" "crimeData = Features crimes" "crimes \<noteq> []" by blast
  define ri where
    "ri = createSpatialIndex (fst (partitionCrimes clk W sel crimes)) defaultGridSize"
  define pri where
    "pri = createSpatialIndex (snd (partitionCrimes clk W sel crimes)) defaultGridSize"
  from assms obtain r where
    "forEachCommunity (processCommunity W ri pri) (Map.empty, cache) cs = Some r"
    "trs = fst (finalState r)"
    unfolding v(1,2) calculateSafetyTrends_valid[OF v(3)] ri_def pri_def
    by (auto simp: finalState_def split: option.splits sum.splits prod.splits)
  then show ?thesis by blast
next
  case False
  then have "trs = Map.empty"
    using assms by (auto simp: calculateSafetyTrends_def split: collection.splits if_splits)
  then show ?thesis ..
qed

lemma calculateSafetyTrends_consistent:
  assumes "calculateSafetyTrends clk cache communities crimeData W sel = Some (trs, cache')"
    and "trs k = Some t"
  shows "windowConsistent W t"
proof -
  from calculateSafetyTrends_cases[OF assms(1)]
  show ?thesis
  proof
    assume "trs = Map.empty"
    then show ?thesis using assms(2) by simp
  next
    assume "\<exists>ri pri cs r.
      forEachCommunity (processCommunity W ri pri) (Map.empty, cache) cs = Some r \<and>
      trs = fst (finalState r)"
    then obtain ri pri cs r where
      "forEachCommunity (processCommunity W ri pri) (Map.empty, cache) cs = Some r"
      "trs = fst (finalState r)" by blast
    then show ?thesis
      using assms(2) forEachCommunity_consistent[of W ri pri cache cs r k t] by simp
  qed
qed

lemma forEachCommunity_absent:
  "forEachCommunity (processCommunity W ri pri) st cs = Some (Inr st') \<Longrightarrow>
   k \<notin> trendKey ` set cs \<Longrightarrow> fst st' k = fst st k"
  by (induction cs arbitrary: st)
     (auto simp: processCommunity_other split: option.splits sum.splits)

lemma forEachCommunity_dom:
  "forEachCommunity (processCommunity W ri pri) st cs = Some (Inr st') \<Longrightarrow>
   dom (fst st') = dom (fst st) \<union> trendKey ` set cs"
  by (induction cs arbitrary: st)
     (auto simp: processCommunity_dom split: option.splits sum.splits)

lemma forEachCommunity_degenerate:
  assumes "forEachCommunity (processCommunity W ri pri) st cs = Some (Inr st')"
    "distinct (map trendKey cs)" "c \<in> set cs"
    "length (getPolygonCoordinates (geometry c)) < 3"
  shows "fst st' (trendKey c) = Some (zeroTrend c)"
  using assms
proof (induction cs arbitrary: st)
  case Nil
  then show ?case by simp
next
  case (Cons c' cs)
  from Cons.prems(1) obtain s1 where
    s1: "processCommunity W ri pri st c' = Some (Inr s1)"
      "forEachCommunity (processCommunity W ri pri) s1 cs = Some (Inr st')"
    by (auto split: option.splits sum.splits)
  show ?case
  proof (cases "c = c'")
    case True
    then have "trendKey c \<notin> trendKey ` set cs" using Cons.prems(2) by simp
    then have "fst st' (trendKey c) = fst s1 (trendKey c)"
      using s1(2) by (simp add: forEachCommunity_absent)
    then show ?thesis
      using True Cons.prems(4) s1(1) by (auto simp: processCommunity_degenerate)
  next
    case False
    then show ?thesis using Cons.IH[OF s1(2)] Cons.prems by simp
  qed
qed

lemma map_upd_eq_iff: "m(k \<mapsto> a) = m(k \<mapsto> b) \<longleftrightarrow> a = b"
  by (metis fun_upd_same option.inject)

lemma processCommunity_counts:
  assumes "\<not> length (getPolygonCoordinates (geometry c)) < 3"
    "boundsKey c = Inr key"
    "communityBounds cache key = Some b \<or>
     communityBounds cache key = None \<and> calculateCommunityBounds c = Some b"
    "cellNumbersExact defaultGridSize b"
  shows "\<exists>t cache'. processCommunity W ri pri (trends, cache) c =
                       Some (Inr (trends(trendKey c \<mapsto> t), cache')) \<and>
    communityBounds cache' = (communityBounds cache)(key \<mapsto> b) \<and>
    recentCount t =
      length (filter (crimeInCommunity (getPolygonCoordinates (geometry c)))
                (cellRangeCrimes ri defaultGridSize b)) \<and>
    previousCount t =
      length (filter (crimeInCommunity (getPolygonCoordinates (geometry c)))
                (cellRangeCrimes pri defaultGridSize b)) \<and>
    changePercent t =
      min 100 (of_int (Math_round (rawChangePercent (recentCount t) (previousCount t)))) \<and>
    timeRanges t =
      (case trends (trendKey c) of None \<Rightarrow> Map.empty | Some t0 \<Rightarrow> timeRanges t0)
        (W \<mapsto> \<lparr>recent = recentCount t, previous = previousCount t,
                rangeChangePercent = changePercent t\<rparr>)"
  using assms
  by (auto simp add: processCommunity_def getCrimesInCommunityBounds_def boundsCrimes_exact
      Let_def map_upd_eq_iff map_upd_triv)

section \<open>The example computations\<close>

lemma jdiv_0 [simp]: "jdiv 0 g = 0"
  by (simp add: jdiv_def)

lemma tolerance_value: "tolerance = 5902958103587057 / 590295810358705651712"
  unfolding tolerance_def by code_simp

lemma tolerance_pos: "0 < tolerance"
  by (simp add: tolerance_value)

lemma triangle_coords:
  "getPolygonCoordinates (geometry triangle) = [(0, 0), (0, 1 / 256), (1 / 256, 0)]"
  by (simp add: triangle_def getPolygonCoordinates_def outerRingCoordinates_def
      ringCoordinates_def)

lemma segment_coords: "getPolygonCoordinates (geometry segment) = [(0, 0), (1, 1)]"
  by (simp add: segment_def getPolygonCoordinates_def outerRingCoordinates_def
      ringCoordinates_def)

lemma origin_in_triangle: "pointInPolygon 0 0 [(0, 0), (0, 1 / 256), (1 / 256, 0)]"
proof -
  have "isPointOnLineSegment 0 0 0 0 (1 / 256) 0"
    using tolerance_pos fl_nonpos[of "- tolerance"] fl_nonneg[of tolerance]
      fl_nonneg[of "1 / 256 + tolerance"]
    by (simp add: isPointOnLineSegment_def jsub_def jadd_def jmul_def not_less)
  then show ?thesis
    by (simp add: pointInPolygon_def polygonEdges_def)
qed

lemma cell_of_bound: "\<lfloor>jdiv (1 / 256) defaultGridSize\<rfloor> = 0"
  unfolding jdiv_def defaultGridSize_def by code_simp

lemma triangle_bounds:
  "calculateCommunityBounds triangle =
     Some \<lparr>minLat = 0, maxLat = 1 / 256, minLon = 0, maxLon = 1 / 256\<rparr>"
  by (simp add: calculateCommunityBounds_def triangle_coords extendBounds_def Let_def)

lemma triangle_keys: "trendKey triangle = ''tri''" "boundsKey triangle = Inr (Some ''tri'')"
  by (simp_all add: trendKey_def boundsKey_def triangle_def orElse_def truthy_def)

lemma triangle_exact:
  "cellNumbersExact defaultGridSize \<lparr>minLat = 0, maxLat = 1 / 256, minLon = 0, maxLon = 1 / 256\<rparr>"
proof -
  have "0 \<le> jdiv (1 / 256) defaultGridSize \<and> jdiv (1 / 256) defaultGridSize < 1"
    using cell_of_bound by (simp add: floor_eq_iff)
  then show ?thesis by (simp add: cellNumbersExact_def)
qed

lemma triangle_cells:
  "cellRangeCrimes index defaultGridSize \<lparr>minLat = 0, maxLat = 1 / 256, minLon = 0, maxLon = 1 / 256\<rparr>
     = cellCrimes index \<lparr>minLat = 0, maxLat = 1 / 256, minLon = 0, maxLon = 1 / 256\<rparr> (0, 0)"
  by (simp add: cellRangeCrimes_def cell_of_bound)

lemma origin_crime_in_bounds:
  "crimeInBounds \<lparr>minLat = 0, maxLat = 1 / 256, minLon = 0, maxLon = 1 / 256\<rparr> (crimeInYear y)"
  by (simp add: crimeInBounds_def isPointInBounds_def crimeInYear_def)

lemma origin_crime_in_triangle:
  "crimeInCommunity [(0, 0), (0, 1 / 256), (1 / 256, 0)] (crimeInYear y)"
  using origin_in_triangle by (simp add: crimeInCommunity_def crimeInYear_def)

lemma index_empty: "createSpatialIndex [] g = Map.empty"
  by (simp add: createSpatialIndex_def)

lemma indexCrime_origin:
  "indexCrime g index (crimeInYear y) =
     index((0, 0) \<mapsto> (case index (0, 0) of None \<Rightarrow> [] | Some cs \<Rightarrow> cs) @ [crimeInYear y])"
  by (simp add: indexCrime_def crimeInYear_def Let_def)

lemma period_of_year:
  "getPeriodType clk Year1 \<lparr>getTime = 100, getFullYear = 2024\<rparr> = Previous"
  "getPeriodType clk Year1 \<lparr>getTime = 100, getFullYear = 2025\<rparr> = Recent"
  "getPeriodType clk Years2 \<lparr>getTime = 100, getFullYear = 2024\<rparr> = Recent"
  by (simp_all add: getPeriodType_def)

lemma fl_neg_1 [simp]: "fl (- 1) = - 1"
  using fl_of_int[of "- 1"] by simp

lemma fl_7_8: "fl (- (7 / 8)) = - (7 / 8)"
  by code_simp

lemma fl_175_2: "fl (- (175 / 2)) = - (175 / 2)"
  by code_simp

lemma raw_1_8: "rawChangePercent (Suc 0) 8 = - (175 / 2)"
  by (simp add: rawChangePercent_def jsub_def jdiv_def jmul_def fl_7_8 fl_175_2)

lemma raw_0_1: "rawChangePercent 0 (Suc 0) = - 100"
  by (simp add: rawChangePercent_def jsub_def jdiv_def jmul_def)

lemma raw_p0: "rawChangePercent r 0 = 0"
  by (simp add: rawChangePercent_def)

lemma Math_round_eq:
  "of_int z \<le> x + 1 / 2 \<Longrightarrow> x + 1 / 2 < of_int z + 1 \<Longrightarrow> Math_round x = z"
  by (simp add: Math_round_def floor_unique)

lemma Math_round_values:
  "Math_round 0 = 0" "Math_round (- 100) = - 100" "Math_round (- (175 / 2)) = - 87"
  by (rule Math_round_eq; simp)+

lemma partition_one:
  "partitionCrimes clk Year1 None [crimeInYear 2024] = ([], [crimeInYear 2024])"
  "partitionCrimes clk Years2 None [crimeInYear 2024] = ([crimeInYear 2024], [])"
  by (simp_all add: isCrimeTypeSelected_def crimeInYear_def period_of_year)

lemma partition_nine:
  "partitionCrimes clk Year1 None nineCrimes =
     ([crimeInYear 2025],
      [crimeInYear 2024, crimeInYear 2024, crimeInYear 2024, crimeInYear 2024,
       crimeInYear 2024, crimeInYear 2024, crimeInYear 2024, crimeInYear 2024])"
  by (simp add: nineCrimes_def isCrimeTypeSelected_def crimeInYear_def period_of_year)

lemma index_at_origin:
  assumes "\<forall>c\<in>set cs. \<exists>y. c = crimeInYear y"
  shows "foldl (indexCrime g) index cs =
    (if cs = [] then index
     else index((0, 0) \<mapsto> (case index (0, 0) of None \<Rightarrow> [] | Some pre \<Rightarrow> pre) @ cs))"
  using assms
proof (induction cs arbitrary: index)
  case Nil
  then show ?case by simp
next
  case (Cons c cs)
  then obtain y where c: "c = crimeInYear y" by auto
  have "\<forall>c\<in>set cs. \<exists>y. c = crimeInYear y" using Cons.prems by simp
  note ih = Cons.IH[OF this]
  show ?case
    by (auto simp add: c indexCrime_origin ih)
qed

lemma triangle_count:
  assumes "\<forall>c\<in>set cs. \<exists>y. c = crimeInYear y"
  shows "length (filter (crimeInCommunity [(0, 0), (0, 1 / 256), (1 / 256, 0)])
           (cellRangeCrimes (createSpatialIndex cs defaultGridSize) defaultGridSize
              \<lparr>minLat = 0, maxLat = 1 / 256, minLon = 0, maxLon = 1 / 256\<rparr>)) = length cs"
proof -
  have 1: "filter (crimeInBounds \<lparr>minLat = 0, maxLat = 1 / 256, minLon = 0, maxLon = 1 / 256\<rparr>) cs = cs"
    using assms origin_crime_in_bounds by (auto simp: filter_id_conv)
  have 2: "filter (crimeInCommunity [(0, 0), (0, 1 / 256), (1 / 256, 0)]) cs = cs"
    using assms origin_crime_in_triangle by (auto simp: filter_id_conv)
  show ?thesis
    using index_at_origin[OF assms, of defaultGridSize Map.empty]
    by (simp add: triangle_cells createSpatialIndex_def cellCrimes_def 1 2)
qed

lemma triangle_record:
  assumes "crimes \<noteq> []"
    "\<forall>c\<in>set (fst (partitionCrimes clk W sel crimes)). \<exists>y. c = crimeInYear y"
    "\<forall>c\<in>set (snd (partitionCrimes clk W sel crimes)). \<exists>y. c = crimeInYear y"
    "communityBounds cache (Some ''tri'') = None \<or>
     communityBounds cache (Some ''tri'') =
       Some \<lparr>minLat = 0, maxLat = 1 / 256, minLon = 0, maxLon = 1 / 256\<rparr>"
  shows "\<exists>t cache'.
    calculateSafetyTrends clk cache (Features [triangle]) (Features crimes) W sel =
      Some ([''tri'' \<mapsto> t], cache') \<and>
    communityBounds cache' (Some ''tri'') =
      Some \<lparr>minLat = 0, maxLat = 1 / 256, minLon = 0, maxLon = 1 / 256\<rparr> \<and>
    recentCount t = length (fst (partitionCrimes clk W sel crimes)) \<and>
    previousCount t = length (snd (partitionCrimes clk W sel crimes)) \<and>
    changePercent t =
      min 100 (of_int (Math_round (rawChangePercent (recentCount t) (previousCount t)))) \<and>
    timeRanges t = [W \<mapsto> \<lparr>recent = recentCount t, previous = previousCount t,
                rangeChangePercent = changePercent t\<rparr>]"
proof -
  have n: "\<not> length (getPolygonCoordinates (geometry triangle)) < 3" by (simp add: triangle_coords)
  have b: "communityBounds cache (Some ''tri'') =
             Some \<lparr>minLat = 0, maxLat = 1 / 256, minLon = 0, maxLon = 1 / 256\<rparr> \<or>
           communityBounds cache (Some ''tri'') = None \<and>
           calculateCommunityBounds triangle =
             Some \<lparr>minLat = 0, maxLat = 1 / 256, minLon = 0, maxLon = 1 / 256\<rparr>"
    using assms(4) by (auto simp: triangle_bounds)
  from processCommunity_counts[OF n triangle_keys(2) b triangle_exact, of W
      "createSpatialIndex (fst (partitionCrimes clk W sel crimes)) defaultGridSize"
      "createSpatialIndex (snd (partitionCrimes clk W sel crimes)) defaultGridSize" Map.empty]
  obtain t c1 where t:
    "processCommunity W
       (createSpatialIndex (fst (partitionCrimes clk W sel crimes)) defaultGridSize)
       (createSpatialIndex (snd (partitionCrimes clk W sel crimes)) defaultGridSize)
       (Map.empty, cache) triangle = Some (Inr ([''tri'' \<mapsto> t], c1))"
    "communityBounds c1 =
       (communityBounds cache)(Some ''tri'' \<mapsto> \<lparr>minLat = 0, maxLat = 1 / 256, minLon = 0, maxLon = 1 / 256\<rparr>)"
    "recentCount t = length (fst (partitionCrimes clk W sel crimes))"
    "previousCount t = length (snd (partitionCrimes clk W sel crimes))"
    "changePercent t =
      min 100 (of_int (Math_round (rawChangePercent (recentCount t) (previousCount t))))"
    "timeRanges t = [W \<mapsto> \<lparr>recent = recentCount t, previous = previousCount t,
                rangeChangePercent = changePercent t\<rparr>]"
    by (auto simp add: triangle_keys triangle_coords
        triangle_count[OF assms(2)] triangle_count[OF assms(3)])
  have "calculateSafetyTrends clk cache (Features [triangle]) (Features crimes) W sel =
      Some ([''tri'' \<mapsto> t], c1\<lparr>results := [''tri'' \<mapsto> t]\<rparr>)"
    by (simp add: calculateSafetyTrends_valid[OF assms(1)] t(1))
  moreover have "communityBounds (c1\<lparr>results := [''tri'' \<mapsto> t]\<rparr>) (Some ''tri'') =
      Some \<lparr>minLat = 0, maxLat = 1 / 256, minLon = 0, maxLon = 1 / 256\<rparr>"
    by (simp add: t(2))
  ultimately show ?thesis using t(3-6) by blast
qed

lemma first_record:
  "\<exists>t cache'. firstCall = Some ([''tri'' \<mapsto> t], cache') \<and>
     communityBounds cache' (Some ''tri'') =
       Some \<lparr>minLat = 0, maxLat = 1 / 256, minLon = 0, maxLon = 1 / 256\<rparr> \<and>
     recentCount t = 0 \<and> previousCount t = 1 \<and> changePercent t = - 100 \<and>
     timeRanges t = [Year1 \<mapsto> \<lparr>recent = 0, previous = 1, rangeChangePercent = - 100\<rparr>]"
proof -
  have c: "communityBounds emptyCache (Some ''tri'') = None \<or>
     communityBounds emptyCache (Some ''tri'') =
       Some \<lparr>minLat = 0, maxLat = 1 / 256, minLon = 0, maxLon = 1 / 256\<rparr>"
    by (simp add: emptyCache_def)
  have p: "\<forall>c\<in>set (fst (partitionCrimes exampleClock Year1 None [crimeInYear 2024])).
             \<exists>y. c = crimeInYear y"
    "\<forall>c\<in>set (snd (partitionCrimes exampleClock Year1 None [crimeInYear 2024])).
             \<exists>y. c = crimeInYear y"
    by (auto simp add: partition_one simp del: partitionCrimes.simps)
  have n: "[crimeInYear 2024] \<noteq> []" by simp
  from triangle_record[OF n p c] obtain t cache' where
    "firstCall = Some ([''tri'' \<mapsto> t], cache')"
    "communityBounds cache' (Some ''tri'') =
       Some \<lparr>minLat = 0, maxLat = 1 / 256, minLon = 0, maxLon = 1 / 256\<rparr>"
    "recentCount t = 0" "previousCount t = Suc 0"
    "changePercent t =
       min 100 (of_int (Math_round (rawChangePercent (recentCount t) (previousCount t))))"
    "timeRanges t = [Year1 \<mapsto> \<lparr>recent = recentCount t, previous = previousCount t,
                rangeChangePercent = changePercent t\<rparr>]"
    by (auto simp add: firstCall_def partition_one simp del: partitionCrimes.simps)
  then show ?thesis by (auto simp add: raw_0_1 Math_round_values)
qed

lemma second_record:
  "\<exists>t cache'. secondCall = Some ([''tri'' \<mapsto> t], cache') \<and>
     recentCount t = 1 \<and> previousCount t = 0 \<and> changePercent t = 0 \<and>
     timeRanges t = [Years2 \<mapsto> \<lparr>recent = 1, previous = 0, rangeChangePercent = 0\<rparr>]"
proof -
  from first_record obtain t1 c1 where
    f: "firstCall = Some ([''tri'' \<mapsto> t1], c1)"
      "communityBounds c1 (Some ''tri'') =
         Some \<lparr>minLat = 0, maxLat = 1 / 256, minLon = 0, maxLon = 1 / 256\<rparr>"
    by blast
  have c: "communityBounds c1 (Some ''tri'') = None \<or>
     communityBounds c1 (Some ''tri'') =
       Some \<lparr>minLat = 0, maxLat = 1 / 256, minLon = 0, maxLon = 1 / 256\<rparr>"
    by (simp add: f(2))
  have p: "\<forall>c\<in>set (fst (partitionCrimes exampleClock Years2 None [crimeInYear 2024])).
             \<exists>y. c = crimeInYear y"
    "\<forall>c\<in>set (snd (partitionCrimes exampleClock Years2 None [crimeInYear 2024])).
             \<exists>y. c = crimeInYear y"
    by (auto simp add: partition_one simp del: partitionCrimes.simps)
  have n: "[crimeInYear 2024] \<noteq> []" by simp
  have s: "secondCall =
      calculateSafetyTrends exampleClock c1 (Features [triangle])
        (Features [crimeInYear 2024]) Years2 None"
    by (simp add: secondCall_def f(1))
  from triangle_record[OF n p c] obtain t cache' where
    "secondCall = Some ([''tri'' \<mapsto> t], cache')"
    "recentCount t = Suc 0" "previousCount t = 0"
    "changePercent t =
       min 100 (of_int (Math_round (rawChangePercent (recentCount t) (previousCount t))))"
    "timeRanges t = [Years2 \<mapsto> \<lparr>recent = recentCount t, previous = previousCount t,
                rangeChangePercent = changePercent t\<rparr>]"
    by (auto simp add: s partition_one simp del: partitionCrimes.simps)
  then show ?thesis by (auto simp add: raw_p0 Math_round_values)
qed

lemma nine_record:
  "\<exists>t cache'. calculateSafetyTrends exampleClock emptyCache (Features [triangle])
            (Features nineCrimes) Year1 None = Some ([''tri'' \<mapsto> t], cache') \<and>
     recentCount t = 1 \<and> previousCount t = 8 \<and> changePercent t = - 87 \<and>
     timeRanges t Year1 = Some \<lparr>recent = 1, previous = 8, rangeChangePercent = - 87\<rparr>"
proof -
  have c: "communityBounds emptyCache (Some ''tri'') = None \<or>
     communityBounds emptyCache (Some ''tri'') =
       Some \<lparr>minLat = 0, maxLat = 1 / 256, minLon = 0, maxLon = 1 / 256\<rparr>"
    by (simp add: emptyCache_def)
  have ne: "nineCrimes \<noteq> []" by (simp add: nineCrimes_def)
  have p: "\<forall>c\<in>set (fst (partitionCrimes exampleClock Year1 None nineCrimes)).
             \<exists>y. c = crimeInYear y"
    "\<forall>c\<in>set (snd (partitionCrimes exampleClock Year1 None nineCrimes)).
             \<exists>y. c = crimeInYear y"
    by (auto simp add: partition_nine simp del: partitionCrimes.simps)
  from triangle_record[OF ne p c] obtain t cache' where t:
    "calculateSafetyTrends exampleClock emptyCache (Features [triangle])
            (Features nineCrimes) Year1 None = Some ([''tri'' \<mapsto> t], cache')"
    "recentCount t = length (fst (partitionCrimes exampleClock Year1 None nineCrimes))"
    "previousCount t = length (snd (partitionCrimes exampleClock Year1 None nineCrimes))"
    "changePercent t =
       min 100 (of_int (Math_round (rawChangePercent (recentCount t) (previousCount t))))"
    "timeRanges t = [Year1 \<mapsto> \<lparr>recent = recentCount t, previous = previousCount t,
                rangeChangePercent = changePercent t\<rparr>]"
    by blast
  have "recentCount t = Suc 0" "previousCount t = 8"
    using t(2,3) by (simp_all add: partition_nine del: partitionCrimes.simps)
  then show ?thesis using t(1,4,5) by (auto simp add: raw_1_8 Math_round_values)
qed

section \<open>Time windows across invocations\<close>

text \<open>
  C2 says that a computation for a window \<open>W\<close> after one for a window \<open>V\<close> leaves both
  sub-records in each neighborhood's \<open>timeRanges\<close>. The code reads the earlier
  sub-records from its own \<open>trends\<close> object, which every call creates empty, so the
  merge only ever sees records written earlier in the same call. Here the first call
  (window \<open>'1year'\<close>) writes the \<open>'1year'\<close> sub-record of the triangle; after the second
  call (window \<open>'2years'\<close>, same data, the cache of the first call) the triangle's record
  has the \<open>'2years'\<close> sub-record and no \<open>'1year'\<close> sub-record.
\<close>

theorem windows_not_accumulated:
  "firstCall \<noteq> None \<and> secondCall \<noteq> None \<and>
   subRecord (trendsOf firstCall) ''tri'' Year1 \<noteq> None \<and>
   subRecord (trendsOf secondCall) ''tri'' Years2 \<noteq> None \<and>
   subRecord (trendsOf secondCall) ''tri'' Year1 = None"
proof -
  from first_record obtain t1 c1 where
    f: "firstCall = Some ([''tri'' \<mapsto> t1], c1)"
      "timeRanges t1 = [Year1 \<mapsto> \<lparr>recent = 0, previous = 1, rangeChangePercent = - 100\<rparr>]"
    by blast
  from second_record obtain t2 c2 where
    s: "secondCall = Some ([''tri'' \<mapsto> t2], c2)"
      "timeRanges t2 = [Years2 \<mapsto> \<lparr>recent = 1, previous = 0, rangeChangePercent = 0\<rparr>]"
    by blast
  show ?thesis by (simp add: subRecord_def trendsOf_def f s)
qed

text \<open>
  C1 says that the window \<open>A\<close>, projected from the mapping of a later computation for a
  window \<open>B\<close>, gives the counts of the computation for \<open>A\<close>. On the same two calls it
  does not: the window \<open>'1year'\<close> gives the triangle \<open>recentCount = 0\<close>; after the
  computation for \<open>'2years'\<close> the projection for \<open>'1year'\<close> finds no sub-record (the
  merge above has lost it), returns the \<open>'2years'\<close> record unchanged, and
  \<open>recentCount\<close> is 1.
\<close>

theorem round_trip_window_lost:
  "map_option recentCount (trendsOf firstCall ''tri'') = Some 0 \<and>
   map_option recentCount
     (getSafetyTrendsForTimeRange (trendsOf secondCall) Year1 ''tri'') = Some 1"
proof -
  from first_record obtain t1 c1 where
    f: "firstCall = Some ([''tri'' \<mapsto> t1], c1)" "recentCount t1 = 0"
    by blast
  from second_record obtain t2 c2 where
    s: "secondCall = Some ([''tri'' \<mapsto> t2], c2)" "recentCount t2 = 1"
      "timeRanges t2 = [Years2 \<mapsto> \<lparr>recent = 1, previous = 0, rangeChangePercent = 0\<rparr>]"
    by blast
  show ?thesis
    by (simp add: getSafetyTrendsForTimeRange_def projectTrend_def trendsOf_def f s)
qed

section \<open>Percent change\<close>

text \<open>
  C3 names round-half-away-from-zero. With one recent and eight previous points the
  quotient is exactly \<open>-87.5\<close>; \<open>Math.round\<close> gives \<open>-87\<close>, rounding away from zero
  gives \<open>-88\<close>.
\<close>

theorem change_percent_counterexample:
  "map_option recentCount
     (trendsOf (calculateSafetyTrends exampleClock emptyCache (Features [triangle])
                  (Features nineCrimes) Year1 None) ''tri'') = Some 1 \<and>
   map_option previousCount
     (trendsOf (calculateSafetyTrends exampleClock emptyCache (Features [triangle])
                  (Features nineCrimes) Year1 None) ''tri'') = Some 8 \<and>
   map_option changePercent
     (trendsOf (calculateSafetyTrends exampleClock emptyCache (Features [triangle])
                  (Features nineCrimes) Year1 None) ''tri'') = Some (- 87) \<and>
   roundHalfAwayFromZero (min 100 ((1 - 8) / 8 * 100)) = - 88"
proof -
  from nine_record obtain t cache' where
    t: "calculateSafetyTrends exampleClock emptyCache (Features [triangle])
            (Features nineCrimes) Year1 None = Some ([''tri'' \<mapsto> t], cache')"
      "recentCount t = 1" "previousCount t = 8" "changePercent t = - 87" by blast
  show ?thesis by (simp add: roundHalfAwayFromZero_def trendsOf_def t)
qed

lemma round_min_commute: "min 100 (of_int (Math_round x)) = (of_int (Math_round (min 100 x)) :: rat)"
proof (cases "x \<le> 100")
  case True
  then have "x + 1 / 2 < 101" by simp
  then have "\<lfloor>x + 1 / 2\<rfloor> < 101" by (simp add: floor_less_iff)
  then have "(of_int \<lfloor>x + 1 / 2\<rfloor> :: rat) \<le> 100" by linarith
  then have "min 100 (of_int \<lfloor>x + 1 / 2\<rfloor> :: rat) = of_int \<lfloor>x + 1 / 2\<rfloor>"
    by (rule min_absorb2)
  moreover have "min 100 x = x" using True by (rule min_absorb2)
  ultimately show ?thesis by (simp only: Math_round_def)
next
  case False
  then have "100 \<le> \<lfloor>x + 1 / 2\<rfloor>" by (simp add: le_floor_iff)
  then have "(100 :: rat) \<le> of_int \<lfloor>x + 1 / 2\<rfloor>" by linarith
  then have "min 100 (of_int \<lfloor>x + 1 / 2\<rfloor> :: rat) = 100" by (rule min_absorb1)
  moreover have "min 100 x = 100" using False by (simp add: min_absorb1)
  moreover have "\<lfloor>(100 :: rat) + 1 / 2\<rfloor> = 100" by (rule floor_unique) simp_all
  ultimately show ?thesis by (simp only: Math_round_def of_int_numeral)
qed

text \<open>
  C3, amended. For every record of the mapping \<open>calculateSafetyTrends\<close> returns: if
  \<open>previousCount > 0\<close> then \<open>changePercent\<close> is \<open>round (min 100 x)\<close>, where \<open>x\<close> is
  \<open>(recentCount - previousCount) / previousCount * 100\<close> evaluated in double arithmetic
  and \<open>round\<close> is \<open>Math.round\<close> (a tie goes towards \<open>+\<infinity>\<close>); the cap is one-sided at
  100. If \<open>previousCount = 0\<close> then \<open>changePercent = 0\<close>.
\<close>

theorem change_percent_formula:
  assumes "calculateSafetyTrends clk cache communities crimeData W sel = Some (trends, cache')"
    and "trends cid = Some t"
  shows "changePercent t =
    (if 0 < previousCount t
     then of_int (Math_round (min 100
            (jmul (jdiv (jsub (of_nat (recentCount t)) (of_nat (previousCount t)))
                        (of_nat (previousCount t))) 100)))
     else 0)"
proof -
  have "windowConsistent W t" using assms by (rule calculateSafetyTrends_consistent)
  then show ?thesis
    by (auto simp: windowConsistent_def round_min_commute rawChangePercent_def Math_round_values)
qed

text \<open>The formula on the nine points above: \<open>round (min 100 (-87.5)) = -87\<close>.\<close>

theorem change_percent_formula_witness:
  "\<exists>t cache'. calculateSafetyTrends exampleClock emptyCache (Features [triangle])
            (Features nineCrimes) Year1 None = Some ([''tri'' \<mapsto> t], cache') \<and>
     previousCount t = 8 \<and>
     changePercent t =
       of_int (Math_round (min 100 (jmul (jdiv (jsub (of_nat (recentCount t)) 8) 8) 100))) \<and>
     changePercent t = - 87"
proof -
  from nine_record obtain t cache' where
    t: "calculateSafetyTrends exampleClock emptyCache (Features [triangle])
            (Features nineCrimes) Year1 None = Some ([''tri'' \<mapsto> t], cache')"
      "recentCount t = 1" "previousCount t = 8" "changePercent t = - 87" by blast
  have "[''tri'' \<mapsto> t] ''tri'' = Some t" by simp
  from change_percent_formula[OF t(1) this] t show ?thesis by auto
qed

section \<open>Degenerate boundaries\<close>

text \<open>
  C4, as stated, promises a zero record for every degenerate boundary. With an empty
  point dataset the guard \<open>crimeData.features.length === 0\<close> returns the empty mapping
  before any boundary is looked at.
\<close>

theorem degenerate_counterexample:
  "length (getPolygonCoordinates (geometry segment)) < 3 \<and>
   calculateSafetyTrends exampleClock emptyCache (Features [segment]) (Features []) Year1 None
     = Some (Map.empty, emptyCache)"
  by (simp add: segment_coords calculateSafetyTrends_def)

text \<open>
  C4, amended. When the point dataset is not empty and the identifiers of the
  neighborhood collection are distinct, every boundary whose geometry extracts to fewer
  than 3 vertices has a record with \<open>recentCount = 0\<close>, \<open>previousCount = 0\<close> and
  \<open>changePercent = 0\<close>, and the computation goes on: it returns, and the mapping has a
  record for every boundary of the collection. This is for collections whose boundaries
  with three vertices or more each have an \<open>id\<close> or a \<open>properties\<close> object, and for
  bounding boxes (cached, or of the collection's boundaries) with grid cell numbers
  below \<open>2 ^ 53\<close>, as the boxes of geographic coordinates have: then the queries of the
  other boundaries return.
\<close>

theorem degenerate_zero_record:
  assumes "crimes \<noteq> []" "distinct (map trendKey cs)" "c \<in> set cs"
    "length (getPolygonCoordinates (geometry c)) < 3"
    "\<forall>c'\<in>set cs. \<not> length (getPolygonCoordinates (geometry c')) < 3 \<longrightarrow> keyReadable c'"
    "boundsCacheExact cache" "\<forall>c'\<in>set cs. boundaryExact c'"
  shows "\<exists>trends cache'.
           calculateSafetyTrends clk cache (Features cs) (Features crimes) W sel =
             Some (trends, cache') \<and>
           (\<exists>t. trends (trendKey c) = Some t \<and>
                recentCount t = 0 \<and> previousCount t = 0 \<and> changePercent t = 0) \<and>
           dom trends = trendKey ` set cs"
proof -
  define ri where "ri = createSpatialIndex (fst (partitionCrimes clk W sel crimes)) defaultGridSize"
  define pri where "pri = createSpatialIndex (snd (partitionCrimes clk W sel crimes)) defaultGridSize"
  from forEachCommunity_returns[of "(Map.empty, cache)" cs W ri pri] assms(5,6,7) obtain st' where
    st: "forEachCommunity (processCommunity W ri pri) (Map.empty, cache) cs = Some (Inr st')"
    by auto
  have r: "calculateSafetyTrends clk cache (Features cs) (Features crimes) W sel =
      Some (fst st', (snd st')\<lparr>results := fst st'\<rparr>)"
    using st by (simp add: calculateSafetyTrends_valid[OF assms(1)] ri_def pri_def)
  have z: "fst st' (trendKey c) = Some (zeroTrend c)"
    using st assms(2,3,4) by (rule forEachCommunity_degenerate)
  have d: "dom (fst st') = trendKey ` set cs"
    using forEachCommunity_dom[OF st] by simp
  show ?thesis
    using r z d by (simp add: zeroTrend_def)
qed

text \<open>The triangle and the two-vertex boundary in one collection.\<close>

theorem degenerate_zero_record_witness:
  "\<exists>trends cache'.
     calculateSafetyTrends exampleClock emptyCache (Features [triangle, segment])
       (Features [crimeInYear 2024]) Year1 None = Some (trends, cache') \<and>
     (\<exists>t. trends ''seg'' = Some t \<and>
          recentCount t = 0 \<and> previousCount t = 0 \<and> changePercent t = 0) \<and>
     dom trends = {''tri'', ''seg''}"
proof -
  have k: "trendKey segment = ''seg''" by (simp add: trendKey_def segment_def orElse_def)
  have d: "distinct (map trendKey [triangle, segment])" by (simp add: k triangle_keys)
  have n: "[crimeInYear 2024] \<noteq> []" by simp
  have l: "length (getPolygonCoordinates (geometry segment)) < 3" by (simp add: segment_coords)
  have e: "boundsCacheExact emptyCache" by (simp add: boundsCacheExact_def emptyCache_def)
  have s: "calculateCommunityBounds segment = None"
    by (simp add: calculateCommunityBounds_def segment_coords)
  have b: "\<forall>c'\<in>set [triangle, segment]. boundaryExact c'"
    by (simp add: boundaryExact_def triangle_bounds triangle_exact s)
  have kr: "\<forall>c'\<in>set [triangle, segment].
      \<not> length (getPolygonCoordinates (geometry c')) < 3 \<longrightarrow> keyReadable c'"
    by (simp add: keyReadable_def triangle_def segment_def truthy_def)
  from degenerate_zero_record[OF n d _ l kr e b, of exampleClock Year1 None]
  show ?thesis by (simp add: k triangle_keys)
qed

text \<open>
  The amended statement says nothing of a collection in which a boundary with three
  vertices or more has neither \<open>id\<close> nor \<open>properties\<close>: there the query for that
  boundary throws, the iteration ends, and the boundaries after it get no record.
\<close>

lemma thrown_boundary_ends_iteration:
  "calculateSafetyTrends exampleClock emptyCache (Features [bare, segment])
     (Features [crimeInYear 2024]) Year1 None = Some (Map.empty, emptyCache)"
proof -
  have c: "getPolygonCoordinates (geometry bare) = [(0, 0), (0, 1 / 256), (1 / 256, 0)]"
    by (simp add: bare_def getPolygonCoordinates_def outerRingCoordinates_def
        ringCoordinates_def)
  have k: "boundsKey bare = Inl TypeError" by (simp add: boundsKey_def bare_def truthy_def)
  have "processCommunity W ri pri (Map.empty, emptyCache) bare =
      Some (Inl (TypeError, (Map.empty, emptyCache)))" for W ri pri
    by (simp add: processCommunity_def c getCrimesInCommunityBounds_def k)
  then show ?thesis
    by (simp add: calculateSafetyTrends_valid)
qed

section \<open>Evaluating the rounding on given numbers\<close>

text \<open>
  \<open>fl x\<close> is determined by the binade of \<open>x\<close> and the integer nearest to \<open>x\<close> divided
  by the spacing; given both, the simplifier checks a value.
\<close>

lemma rne_eqI: "\<bar>y - of_int n\<bar> < 1 / 2 \<Longrightarrow> rne y = n"
proof -
  assume a: "\<bar>y - of_int n\<bar> < 1 / 2"
  then have lo: "of_int n - 1 / 2 < y" and hi: "y < of_int n + 1 / 2" by linarith+
  note c = rne_cases[of y]
  have "of_int (n - 1) \<le> y" using lo by simp
  then have 1: "n - 1 \<le> \<lfloor>y\<rfloor>" by (simp only: le_floor_iff)
  have "y < of_int (n + 1)" using hi by simp
  then have 2: "\<lfloor>y\<rfloor> < n + 1" by (simp only: floor_less_iff)
  from 1 2 consider "\<lfloor>y\<rfloor> = n" | "\<lfloor>y\<rfloor> = n - 1" by linarith
  then show ?thesis
  proof cases
    case 1
    then have "y - of_int \<lfloor>y\<rfloor> < 1 / 2" using hi by simp
    then show ?thesis using c(3) 1 by simp
  next
    case 2
    then have "1 / 2 < y - of_int \<lfloor>y\<rfloor>" using lo by simp
    then show ?thesis using c(4) 2 by simp
  qed
qed

lemma rne_tieI: "y = of_int m + 1 / 2 \<Longrightarrow> rne y = (if even m then m else m + 1)"
proof -
  assume y: "y = of_int m + 1 / 2"
  have "\<lfloor>y\<rfloor> = m" unfolding y by (rule floor_unique) simp_all
  then show ?thesis using rne_cases(5)[of y] y by simp
qed

lemma fl_eqI:
  assumes "2 powi e \<le> \<bar>x\<bar>" "\<bar>x\<bar> < 2 powi (e + 1)"
    and "\<bar>x / 2 powi (max (e - 52) (- 1074)) - of_int n\<bar> < 1 / 2"
  shows "fl x = of_int n * 2 powi (max (e - 52) (- 1074))"
proof -
  have il: "ilog2 \<bar>x\<bar> = e" using assms(1,2) by (rule ilog2_unique)
  have p: "(0::rat) < 2 powi e" by (simp add: zero_less_power_int)
  have "0 < \<bar>x\<bar>" using assms(1) p by (rule less_le_trans[rotated])
  then have nz: "x \<noteq> 0" by simp
  show ?thesis using rne_eqI[OF assms(3)] il nz by (simp add: fl_def)
qed

lemma fl_tieI:
  assumes "2 powi e \<le> \<bar>x\<bar>" "\<bar>x\<bar> < 2 powi (e + 1)"
    and "x / 2 powi (max (e - 52) (- 1074)) = of_int m + 1 / 2"
  shows "fl x = of_int (if even m then m else m + 1) * 2 powi (max (e - 52) (- 1074))"
proof -
  have il: "ilog2 \<bar>x\<bar> = e" using assms(1,2) by (rule ilog2_unique)
  have p: "(0::rat) < 2 powi e" by (simp add: zero_less_power_int)
  have "0 < \<bar>x\<bar>" using assms(1) p by (rule less_le_trans[rotated])
  then have nz: "x \<noteq> 0" by simp
  show ?thesis using rne_tieI[OF assms(3)] il nz by (simp add: fl_def)
qed

section \<open>Winding direction\<close>

lemma double_030001: "fl (30001 / 100000) = 2702249848414845 / 9007199254740992"
  using fl_eqI[of "- 2" "30001 / 100000" "5404499696829690"] by simp

lemma double_03: "fl (3 / 10) = 5404319552844595 / 18014398509481984"
  using fl_eqI[of "- 2" "3 / 10" "5404319552844595"] by simp

lemma winding_values:
  "jsub 0 (5902958103587057 / 590295810358705651712) = - (5902958103587057 / 590295810358705651712)"
  "jadd 0 (5902958103587057 / 590295810358705651712) = 5902958103587057 / 590295810358705651712"
  "jadd 1 (5902958103587057 / 590295810358705651712) = 2251822331683385 / 2251799813685248"
  "jsub (2702249848414845 / 9007199254740992) 1 = - (6304949406326147 / 9007199254740992)"
  "jsub 0 1 = - 1"
  "jmul (- (6304949406326147 / 9007199254740992)) (- 1) = 6304949406326147 / 9007199254740992"
  "jsub (5404319552844595 / 18014398509481984) 1 = - (3152519739159347 / 4503599627370496)"
  "jmul (- (3152519739159347 / 4503599627370496)) (- 1) = 3152519739159347 / 4503599627370496"
  "jsub (6304949406326147 / 9007199254740992) (3152519739159347 / 4503599627370496) = - (90071992547 / 9007199254740992)"
  "jsub 1 (5902958103587057 / 590295810358705651712) = 9007109182748445 / 9007199254740992"
  "jsub 1 1 = 0"
  "jmul 0 (- (6304949406326147 / 9007199254740992)) = 0"
  "jdiv 0 (- 1) = 0"
  "jadd 0 1 = 1"
  "jsub (2702249848414845 / 9007199254740992) 0 = 2702249848414845 / 9007199254740992"
  "jsub 1 0 = 1"
  "jmul (2702249848414845 / 9007199254740992) 1 = 2702249848414845 / 9007199254740992"
  "jsub (5404319552844595 / 18014398509481984) 0 = 5404319552844595 / 18014398509481984"
  "jmul (5404319552844595 / 18014398509481984) 1 = 5404319552844595 / 18014398509481984"
  "jsub (2702249848414845 / 9007199254740992) (5404319552844595 / 18014398509481984) = 180143985095 / 18014398509481984"
  "jmul 1 (2702249848414845 / 9007199254740992) = 2702249848414845 / 9007199254740992"
  "jdiv (2702249848414845 / 9007199254740992) 1 = 2702249848414845 / 9007199254740992"
  "jadd (2702249848414845 / 9007199254740992) 0 = 2702249848414845 / 9007199254740992"
proof -
  show "jsub 0 (5902958103587057 / 590295810358705651712) = - (5902958103587057 / 590295810358705651712)"
    using fl_eqI[of "- 17" "- (5902958103587057 / 590295810358705651712)" "- 5902958103587057"] by (simp add: jsub_def)
  show "jadd 0 (5902958103587057 / 590295810358705651712) = 5902958103587057 / 590295810358705651712"
    using fl_eqI[of "- 17" "5902958103587057 / 590295810358705651712" "5902958103587057"] by (simp add: jadd_def)
  show "jadd 1 (5902958103587057 / 590295810358705651712) = 2251822331683385 / 2251799813685248"
    using fl_eqI[of "0" "590301713316809238769 / 590295810358705651712" "4503644663366770"] by (simp add: jadd_def)
  show "jsub (2702249848414845 / 9007199254740992) 1 = - (6304949406326147 / 9007199254740992)"
    using fl_eqI[of "- 1" "- (6304949406326147 / 9007199254740992)" "- 6304949406326147"] by (simp add: jsub_def)
  show "jsub 0 1 = - 1"
    using fl_eqI[of "0" "- 1" "- 4503599627370496"] by (simp add: jsub_def)
  show "jmul (- (6304949406326147 / 9007199254740992)) (- 1) = 6304949406326147 / 9007199254740992"
    using fl_eqI[of "- 1" "6304949406326147 / 9007199254740992" "6304949406326147"] by (simp add: jmul_def)
  show "jsub (5404319552844595 / 18014398509481984) 1 = - (3152519739159347 / 4503599627370496)"
    using fl_tieI[of "- 1" "- (12610078956637389 / 18014398509481984)" "- 6305039478318695"] by (simp add: jsub_def)
  show "jmul (- (3152519739159347 / 4503599627370496)) (- 1) = 3152519739159347 / 4503599627370496"
    using fl_eqI[of "- 1" "3152519739159347 / 4503599627370496" "6305039478318694"] by (simp add: jmul_def)
  show "jsub (6304949406326147 / 9007199254740992) (3152519739159347 / 4503599627370496) = - (90071992547 / 9007199254740992)"
    using fl_eqI[of "- 17" "- (90071992547 / 9007199254740992)" "- 5902958103560192"] by (simp add: jsub_def)
  show "jsub 1 (5902958103587057 / 590295810358705651712) = 9007109182748445 / 9007199254740992"
    using fl_eqI[of "- 1" "590289907400602064655 / 590295810358705651712" "9007109182748445"] by (simp add: jsub_def)
  show "jsub 1 1 = 0" by (simp add: jsub_def)
  show "jmul 0 (- (6304949406326147 / 9007199254740992)) = 0" by (simp add: jmul_def)
  show "jdiv 0 (- 1) = 0" by (simp add: jdiv_def)
  show "jadd 0 1 = 1"
    using fl_eqI[of "0" "1" "4503599627370496"] by (simp add: jadd_def)
  show "jsub (2702249848414845 / 9007199254740992) 0 = 2702249848414845 / 9007199254740992"
    using fl_eqI[of "- 2" "2702249848414845 / 9007199254740992" "5404499696829690"] by (simp add: jsub_def)
  show "jsub 1 0 = 1"
    using fl_eqI[of "0" "1" "4503599627370496"] by (simp add: jsub_def)
  show "jmul (2702249848414845 / 9007199254740992) 1 = 2702249848414845 / 9007199254740992"
    using fl_eqI[of "- 2" "2702249848414845 / 9007199254740992" "5404499696829690"] by (simp add: jmul_def)
  show "jsub (5404319552844595 / 18014398509481984) 0 = 5404319552844595 / 18014398509481984"
    using fl_eqI[of "- 2" "5404319552844595 / 18014398509481984" "5404319552844595"] by (simp add: jsub_def)
  show "jmul (5404319552844595 / 18014398509481984) 1 = 5404319552844595 / 18014398509481984"
    using fl_eqI[of "- 2" "5404319552844595 / 18014398509481984" "5404319552844595"] by (simp add: jmul_def)
  show "jsub (2702249848414845 / 9007199254740992) (5404319552844595 / 18014398509481984) = 180143985095 / 18014398509481984"
    using fl_eqI[of "- 17" "180143985095 / 18014398509481984" "5902958103592960"] by (simp add: jsub_def)
  show "jmul 1 (2702249848414845 / 9007199254740992) = 2702249848414845 / 9007199254740992"
    using fl_eqI[of "- 2" "2702249848414845 / 9007199254740992" "5404499696829690"] by (simp add: jmul_def)
  show "jdiv (2702249848414845 / 9007199254740992) 1 = 2702249848414845 / 9007199254740992"
    using fl_eqI[of "- 2" "2702249848414845 / 9007199254740992" "5404499696829690"] by (simp add: jdiv_def)
  show "jadd (2702249848414845 / 9007199254740992) 0 = 2702249848414845 / 9007199254740992"
    using fl_eqI[of "- 2" "2702249848414845 / 9007199254740992" "5404499696829690"] by (simp add: jadd_def)
qed

lemma interior_values:
  "jsub 0 0 = 0"
  "jsub (1 / 4) 0 = 1 / 4"
  "jmul 0 (1 / 4) = 0"
  "jdiv 0 1 = 0"
  "jadd 0 0 = 0"
  "jsub (1 / 4) 1 = - (3 / 4)"
  "jmul (- (3 / 4)) 1 = - (3 / 4)"
  "jmul (1 / 4) (- 1) = - (1 / 4)"
  "jsub (- (3 / 4)) (- (1 / 4)) = - (1 / 2)"
  "jmul 1 (- (3 / 4)) = - (3 / 4)"
  "jdiv (- (3 / 4)) (- 1) = 3 / 4"
  "jadd (3 / 4) 0 = 3 / 4"
  "jmul 0 (- (3 / 4)) = 0"
  "jsub (- (1 / 4)) (- (3 / 4)) = 1 / 2"
  "jmul (- 1) (1 / 4) = - (1 / 4)"
  "jdiv (- (1 / 4)) 1 = - (1 / 4)"
  "jadd (- (1 / 4)) 1 = 3 / 4"
proof -
  show "jsub 0 0 = 0" by (simp add: jsub_def)
  show "jsub (1 / 4) 0 = 1 / 4"
    using fl_eqI[of "- 2" "1 / 4" "4503599627370496"] by (simp add: jsub_def)
  show "jmul 0 (1 / 4) = 0" by (simp add: jmul_def)
  show "jdiv 0 1 = 0" by (simp add: jdiv_def)
  show "jadd 0 0 = 0" by (simp add: jadd_def)
  show "jsub (1 / 4) 1 = - (3 / 4)"
    using fl_eqI[of "- 1" "- (3 / 4)" "- 6755399441055744"] by (simp add: jsub_def)
  show "jmul (- (3 / 4)) 1 = - (3 / 4)"
    using fl_eqI[of "- 1" "- (3 / 4)" "- 6755399441055744"] by (simp add: jmul_def)
  show "jmul (1 / 4) (- 1) = - (1 / 4)"
    using fl_eqI[of "- 2" "- (1 / 4)" "- 4503599627370496"] by (simp add: jmul_def)
  show "jsub (- (3 / 4)) (- (1 / 4)) = - (1 / 2)"
    using fl_eqI[of "- 1" "- (1 / 2)" "- 4503599627370496"] by (simp add: jsub_def)
  show "jmul 1 (- (3 / 4)) = - (3 / 4)"
    using fl_eqI[of "- 1" "- (3 / 4)" "- 6755399441055744"] by (simp add: jmul_def)
  show "jdiv (- (3 / 4)) (- 1) = 3 / 4"
    using fl_eqI[of "- 1" "3 / 4" "6755399441055744"] by (simp add: jdiv_def)
  show "jadd (3 / 4) 0 = 3 / 4"
    using fl_eqI[of "- 1" "3 / 4" "6755399441055744"] by (simp add: jadd_def)
  show "jmul 0 (- (3 / 4)) = 0" by (simp add: jmul_def)
  show "jsub (- (1 / 4)) (- (3 / 4)) = 1 / 2"
    using fl_eqI[of "- 1" "1 / 2" "4503599627370496"] by (simp add: jsub_def)
  show "jmul (- 1) (1 / 4) = - (1 / 4)"
    using fl_eqI[of "- 2" "- (1 / 4)" "- 4503599627370496"] by (simp add: jmul_def)
  show "jdiv (- (1 / 4)) 1 = - (1 / 4)"
    using fl_eqI[of "- 2" "- (1 / 4)" "- 4503599627370496"] by (simp add: jdiv_def)
  show "jadd (- (1 / 4)) 1 = 3 / 4"
    using fl_eqI[of "- 1" "3 / 4" "6755399441055744"] by (simp add: jadd_def)
qed



text \<open>
  C8, as stated, fails in double arithmetic. For the triangle \<open>(0,0), (1,1), (0,1)\<close> and
  the point \<open>(0.30001, 0.3)\<close>, which lies a hair outside the edge from \<open>(1,1)\<close> to
  \<open>(0,0)\<close>, the cross product of \<open>isPointOnLineSegment\<close> is computed from the endpoint
  \<open>(1,1)\<close> in one winding and from \<open>(0,0)\<close> in the other: it rounds to just below the
  tolerance \<open>0.00001\<close> in the first (the point counts as on the edge, result \<open>true\<close>)
  and to just above it in the second (ray casting decides, result \<open>false\<close>).
\<close>

theorem winding_counterexample:
  "pointInPolygon (fl (30001 / 100000)) (fl (3 / 10)) [(0, 0), (1, 1), (0, 1)] \<and>
   \<not> pointInPolygon (fl (30001 / 100000)) (fl (3 / 10)) (rev [(0, 0), (1, 1), (0, 1)])"
  by (simp add: pointInPolygon_def polygonEdges_def isPointOnLineSegment_def rayIntersects_def
      double_030001 double_03 tolerance_value winding_values)

lemma edgeLoop_iff:
  "edgeLoop lat lon es inside \<longleftrightarrow>
     (\<exists>e\<in>set es. isPointOnLineSegment lat lon (fst (fst e)) (snd (fst e)) (fst (snd e)) (snd (snd e))) \<or>
     (inside \<noteq> odd (length (filter (\<lambda>e. rayIntersects lat lon (fst e) (snd e)) es)))"
proof (induction es arbitrary: inside)
  case Nil
  show ?case by simp
next
  case (Cons e es)
  obtain vi vj where e: "e = (vi, vj)" by (cases e)
  show ?case unfolding e by (auto simp: Cons.IH)
qed

lemma zip_swap: "map prod.swap (zip xs ys) = zip ys xs"
  by (induction xs ys rule: list_induct2') auto

lemma polygonEdges_rev:
  assumes "vs \<noteq> []"
  shows "polygonEdges (rev vs) =
     prod.swap (hd (polygonEdges vs)) # rev (map prod.swap (tl (polygonEdges vs)))"
proof -
  obtain v ws where vs: "vs = v # ws" using assms by (cases vs) auto
  have l: "length ws = length (butlast (v # ws))" by simp
  have "rev (map prod.swap (zip ws (butlast (v # ws)))) =
        map prod.swap (zip (rev ws) (rev (butlast (v # ws))))"
    using l by (simp add: zip_rev rev_map)
  also have "\<dots> = zip (rev (butlast (v # ws))) (rev ws)"
    by (rule zip_swap)
  also have "rev (butlast (v # ws)) = tl (rev ws @ [v])"
    by (metis butlast_rev rev.simps(2) rev_rev_ident rev_swap)
  finally have r: "rev (map prod.swap (zip ws (butlast (v # ws)))) =
      zip (tl (rev ws @ [v])) (rev ws)" .
  have "polygonEdges (rev vs) = zip (rev ws @ [v]) (v # rev ws)"
    by (simp add: polygonEdges_def vs)
  also have "\<dots> = (hd (rev ws @ [v]), v) # zip (tl (rev ws @ [v])) (rev ws)"
    by (cases "rev ws @ [v]") simp_all
  also have "hd (rev ws @ [v]) = last (v # ws)"
    by (metis hd_rev rev.simps(2))
  finally have A: "polygonEdges (rev vs) =
      (last (v # ws), v) # zip (tl (rev ws @ [v])) (rev ws)" .
  have B: "polygonEdges vs = (v, last (v # ws)) # zip ws (butlast (v # ws))"
    by (simp add: polygonEdges_def vs)
  show ?thesis
    unfolding A B by (simp only: list.sel swap_simp r)
qed

text \<open>
  C8, amended. \<open>pointInPolygon\<close> gives the same result for a vertex list and its
  reversal whenever, for every edge of the ring (the wrap-around edge included), the
  on-segment test and the ray-crossing test each give the same answer with the two
  endpoints of the edge exchanged. (Reversal visits the same edges in another order,
  each with its endpoints exchanged; the order never matters.)
\<close>

theorem winding_symmetry_conditional:
  assumes "\<forall>e\<in>set (polygonEdges vs). edgeSymmetric lat lon e"
  shows "pointInPolygon lat lon vs = pointInPolygon lat lon (rev vs)"
proof (cases "length vs < 3")
  case True
  then show ?thesis by (simp add: pointInPolygon_def)
next
  case False
  then have ne: "vs \<noteq> []" by auto
  then have "polygonEdges vs \<noteq> []" by (cases vs) (simp_all add: polygonEdges_def)
  then obtain e0 rest where E: "polygonEdges vs = e0 # rest" by (cases "polygonEdges vs") auto
  have E': "polygonEdges (rev vs) = prod.swap e0 # rev (map prod.swap rest)"
    using polygonEdges_rev[OF ne] by (simp add: E)
  have sym: "\<forall>e\<in>set (e0 # rest). edgeSymmetric lat lon e" using assms by (simp add: E)
  have set': "set (polygonEdges (rev vs)) = prod.swap ` set (e0 # rest)"
    by (simp add: E')
  have 1: "(\<exists>e\<in>set (polygonEdges (rev vs)).
          isPointOnLineSegment lat lon (fst (fst e)) (snd (fst e)) (fst (snd e)) (snd (snd e)))
       = (\<exists>e\<in>set (e0 # rest).
          isPointOnLineSegment lat lon (fst (fst e)) (snd (fst e)) (fst (snd e)) (snd (snd e)))"
    using sym unfolding set' by (auto simp: edgeSymmetric_def)
  have f: "filter (\<lambda>e. rayIntersects lat lon (fst e) (snd e)) (map prod.swap (e0 # rest))
      = map prod.swap (filter (\<lambda>e. rayIntersects lat lon (fst e) (snd e)) (e0 # rest))"
    using sym by (simp add: filter_map comp_def edgeSymmetric_def cong: filter_cong)
  have "length (filter (\<lambda>e. rayIntersects lat lon (fst e) (snd e)) (polygonEdges (rev vs)))
      = length (filter (\<lambda>e. rayIntersects lat lon (fst e) (snd e)) (map prod.swap (e0 # rest)))"
    by (simp add: E' flip: rev_map rev_filter)
  also have "\<dots> = length (filter (\<lambda>e. rayIntersects lat lon (fst e) (snd e)) (e0 # rest))"
    by (simp only: f length_map)
  finally have 2: "length (filter (\<lambda>e. rayIntersects lat lon (fst e) (snd e)) (polygonEdges (rev vs)))
      = length (filter (\<lambda>e. rayIntersects lat lon (fst e) (snd e)) (e0 # rest))" .
  show ?thesis
    using False 1 2
    by (simp add: pointInPolygon_def edgeLoop_iff E del: set_simps filter.simps)
qed

text \<open>An interior point of the triangle \<open>(0,0), (0,1), (1,0)\<close>, contained in both windings.\<close>

theorem winding_symmetry_conditional_witness:
  "pointInPolygon (1 / 4) (1 / 4) [(0, 0), (0, 1), (1, 0)] \<and>
   pointInPolygon (1 / 4) (1 / 4) (rev [(0, 0), (0, 1), (1, 0)])"
proof -
  have h: "\<forall>e\<in>set (polygonEdges [(0, 0), (0, 1), (1, 0)]). edgeSymmetric (1 / 4) (1 / 4) e"
    by (simp add: polygonEdges_def edgeSymmetric_def isPointOnLineSegment_def rayIntersects_def
      tolerance_value winding_values interior_values)
  have p: "pointInPolygon (1 / 4) (1 / 4) [(0, 0), (0, 1), (1, 0)]"
    by (simp add: pointInPolygon_def polygonEdges_def isPointOnLineSegment_def rayIntersects_def
      tolerance_value winding_values interior_values)
  from winding_symmetry_conditional[OF h] p show ?thesis by simp
qed

section \<open>Grid prefilter\<close>

lemma defaultGridSize_value0: "fl (1 / 100) = 5764607523034235 / 576460752303423488"
  using fl_eqI[of "- 7" "1 / 100" "5764607523034235"] by simp

lemma near_edge_values:
  "jsub 0 (5902958103587057 / 590295810358705651712) = - (5902958103587057 / 590295810358705651712)"
  "jadd (1 / 256) (5902958103587057 / 590295810358705651712) = 1128782210604141 / 288230376151711744"
  "jadd 0 (5902958103587057 / 590295810358705651712) = 5902958103587057 / 590295810358705651712"
  "jsub (1 / 512) 0 = 1 / 512"
  "jsub 0 0 = 0"
  "jmul (1 / 512) 0 = 0"
  "jsub (- (1 / 262144)) 0 = - (1 / 262144)"
  "jsub (1 / 256) 0 = 1 / 256"
  "jmul (- (1 / 262144)) (1 / 256) = - (1 / 67108864)"
  "jsub 0 (- (1 / 67108864)) = 1 / 67108864"
  "jdiv (1 / 256) (5764607523034235 / 576460752303423488) = 25 / 64"
  "jdiv (- (1 / 262144)) (5764607523034235 / 576460752303423488) = - (25 / 65536)"
  "jdiv (1 / 512) (5764607523034235 / 576460752303423488) = 25 / 128"
proof -
  show "jsub 0 (5902958103587057 / 590295810358705651712) = - (5902958103587057 / 590295810358705651712)"
    using fl_eqI[of "- 17" "- (5902958103587057 / 590295810358705651712)" "- 5902958103587057"] by (simp add: jsub_def)
  show "jadd (1 / 256) (5902958103587057 / 590295810358705651712) = 1128782210604141 / 288230376151711744"
    using fl_eqI[of "- 8" "2311745967317281009 / 590295810358705651712" "4515128842416564"] by (simp add: jadd_def)
  show "jadd 0 (5902958103587057 / 590295810358705651712) = 5902958103587057 / 590295810358705651712"
    using fl_eqI[of "- 17" "5902958103587057 / 590295810358705651712" "5902958103587057"] by (simp add: jadd_def)
  show "jsub (1 / 512) 0 = 1 / 512"
    using fl_eqI[of "- 9" "1 / 512" "4503599627370496"] by (simp add: jsub_def)
  show "jsub 0 0 = 0" by (simp add: jsub_def)
  show "jmul (1 / 512) 0 = 0" by (simp add: jmul_def)
  show "jsub (- (1 / 262144)) 0 = - (1 / 262144)"
    using fl_eqI[of "- 18" "- (1 / 262144)" "- 4503599627370496"] by (simp add: jsub_def)
  show "jsub (1 / 256) 0 = 1 / 256"
    using fl_eqI[of "- 8" "1 / 256" "4503599627370496"] by (simp add: jsub_def)
  show "jmul (- (1 / 262144)) (1 / 256) = - (1 / 67108864)"
    using fl_eqI[of "- 26" "- (1 / 67108864)" "- 4503599627370496"] by (simp add: jmul_def)
  show "jsub 0 (- (1 / 67108864)) = 1 / 67108864"
    using fl_eqI[of "- 26" "1 / 67108864" "4503599627370496"] by (simp add: jsub_def)
  show "jdiv (1 / 256) (5764607523034235 / 576460752303423488) = 25 / 64"
    using fl_eqI[of "- 2" "2251799813685248 / 5764607523034235" "7036874417766400"] by (simp add: jdiv_def)
  show "jdiv (- (1 / 262144)) (5764607523034235 / 576460752303423488) = - (25 / 65536)"
    using fl_eqI[of "- 12" "- (2199023255552 / 5764607523034235)" "- 7036874417766400"] by (simp add: jdiv_def)
  show "jdiv (1 / 512) (5764607523034235 / 576460752303423488) = 25 / 128"
    using fl_eqI[of "- 3" "1125899906842624 / 5764607523034235" "7036874417766400"] by (simp add: jdiv_def)
qed


lemma defaultGridSize_value: "defaultGridSize = 5764607523034235 / 576460752303423488"
  by (simp add: defaultGridSize_def defaultGridSize_value0)

lemma cellRangeCrimes_mem:
  "c \<in> set (cellRangeCrimes index g b) \<longleftrightarrow>
     (\<exists>x\<in>{\<lfloor>jdiv (minLon b) g\<rfloor>..\<lfloor>jdiv (maxLon b) g\<rfloor>}.
      \<exists>y\<in>{\<lfloor>jdiv (minLat b) g\<rfloor>..\<lfloor>jdiv (maxLat b) g\<rfloor>}.
        c \<in> set (cellCrimes index b (x, y)))"
  by (simp add: cellRangeCrimes_def Let_def)

lemma cellCrimes_mem:
  "c \<in> set (cellCrimes index b k) \<longleftrightarrow> (\<exists>cs. index k = Some cs \<and> c \<in> set cs \<and> crimeInBounds b c)"
  by (cases "index k") (auto simp: cellCrimes_def)

lemma indexCrime_keeps:
  assumes "index k = Some cs"
  shows "\<exists>cs'. indexCrime g index c' k = Some cs' \<and> set cs \<subseteq> set cs'"
  using assms by (auto simp: indexCrime_def Let_def split: option.splits)

lemma foldl_indexCrime_keeps:
  assumes "index k = Some cs"
  shows "\<exists>cs'. foldl (indexCrime g) index crimes k = Some cs' \<and> set cs \<subseteq> set cs'"
  using assms
proof (induction crimes arbitrary: index cs)
  case Nil
  then show ?case by simp
next
  case (Cons c' crimes)
  from indexCrime_keeps[of index k cs g c', OF Cons.prems] obtain cs1 where
    1: "indexCrime g index c' k = Some cs1" "set cs \<subseteq> set cs1" by blast
  from Cons.IH[of "indexCrime g index c'" cs1, OF 1(1)] obtain cs2 where
    "foldl (indexCrime g) (indexCrime g index c') crimes k = Some cs2" "set cs1 \<subseteq> set cs2" by blast
  then show ?case using 1(2) by auto
qed

lemma indexCrime_adds:
  assumes "coordinates c = Some coords" "2 \<le> length coords"
  shows "\<exists>cs. indexCrime g index c (\<lfloor>jdiv (coords ! 0) g\<rfloor>, \<lfloor>jdiv (coords ! 1) g\<rfloor>) = Some cs \<and>
     c \<in> set cs"
  using assms by (simp add: indexCrime_def Let_def)

lemma createSpatialIndex_contains:
  assumes "c \<in> set crimes" "coordinates c = Some coords" "2 \<le> length coords"
  shows "\<exists>cs. createSpatialIndex crimes g (\<lfloor>jdiv (coords ! 0) g\<rfloor>, \<lfloor>jdiv (coords ! 1) g\<rfloor>) = Some cs \<and>
     c \<in> set cs"
proof -
  have "\<exists>cs. foldl (indexCrime g) index crimes (\<lfloor>jdiv (coords ! 0) g\<rfloor>, \<lfloor>jdiv (coords ! 1) g\<rfloor>)
           = Some cs \<and> c \<in> set cs" for index
    using assms(1)
  proof (induction crimes arbitrary: index)
    case Nil
    then show ?case by simp
  next
    case (Cons c' crimes)
    show ?case
    proof (cases "c = c'")
      case True
      from indexCrime_adds[OF assms(2,3), of g index] obtain cs where
        1: "indexCrime g index c (\<lfloor>jdiv (coords ! 0) g\<rfloor>, \<lfloor>jdiv (coords ! 1) g\<rfloor>) = Some cs"
          "c \<in> set cs" by blast
      from foldl_indexCrime_keeps[of "indexCrime g index c"
          "(\<lfloor>jdiv (coords ! 0) g\<rfloor>, \<lfloor>jdiv (coords ! 1) g\<rfloor>)" cs g crimes, OF 1(1)] 1(2)
      show ?thesis using True by auto
    next
      case False
      then have "c \<in> set crimes" using Cons.prems by simp
      from Cons.IH[OF this, of "indexCrime g index c'"] show ?thesis by simp
    qed
  qed
  then show ?thesis by (simp add: createSpatialIndex_def)
qed

lemma jdiv_mono: "0 < g \<Longrightarrow> a \<le> b \<Longrightarrow> jdiv a g \<le> jdiv b g"
  unfolding jdiv_def by (intro fl_mono divide_right_mono) simp_all

text \<open>
  C6, as stated, fails: \<open>pointInPolygon\<close> accepts a point within the tolerance
  \<open>0.00001\<close> of an edge, also when it lies outside the polygon's bounding box, and the
  query keeps only points inside the bounding box. The point at latitude \<open>1/512\<close>,
  longitude \<open>-1/262144\<close> is on the triangle's edge along the meridian 0 for
  \<open>pointInPolygon\<close>, and the query for the triangle returns no candidate.
\<close>

theorem prefilter_counterexample:
  "crimeInCommunity (getPolygonCoordinates (geometry triangle)) nearEdgeCrime \<and>
   getCrimesInCommunityBounds emptyCache triangle
        (createSpatialIndex [nearEdgeCrime] defaultGridSize) defaultGridSize =
     Some (Inr ([], emptyCache\<lparr>communityBounds :=
       [Some ''tri'' \<mapsto> \<lparr>minLat = 0, maxLat = 1 / 256, minLon = 0, maxLon = 1 / 256\<rparr>]\<rparr>))"
proof -
  have "isPointOnLineSegment (1 / 512) (- (1 / 262144)) 0 0 (1 / 256) 0"
    by (simp add: isPointOnLineSegment_def tolerance_value near_edge_values)
  then have 1: "crimeInCommunity (getPolygonCoordinates (geometry triangle)) nearEdgeCrime"
    by (simp add: triangle_coords crimeInCommunity_def nearEdgeCrime_def pointInPolygon_def
        polygonEdges_def)
  have "\<not> crimeInBounds \<lparr>minLat = 0, maxLat = 1 / 256, minLon = 0, maxLon = 1 / 256\<rparr> nearEdgeCrime"
    by (simp add: crimeInBounds_def isPointInBounds_def nearEdgeCrime_def)
  then have "cellCrimes (createSpatialIndex [nearEdgeCrime] defaultGridSize)
      \<lparr>minLat = 0, maxLat = 1 / 256, minLon = 0, maxLon = 1 / 256\<rparr> (0, 0) = []"
    by (simp add: cellCrimes_def createSpatialIndex_def indexCrime_def Let_def
        split: option.splits)
  then have 2: "boundsCrimes (createSpatialIndex [nearEdgeCrime] defaultGridSize) defaultGridSize
      \<lparr>minLat = 0, maxLat = 1 / 256, minLon = 0, maxLon = 1 / 256\<rparr> = Some []"
    by (simp add: boundsCrimes_exact[OF triangle_exact] triangle_cells)
  show ?thesis
    using 1 2
    by (simp add: getCrimesInCommunityBounds_def emptyCache_def triangle_bounds triangle_keys)
qed

lemma query_complete_in_bounds:
  assumes "0 < gridSize"
    and "c \<in> set crimes" "coordinates c = Some coords" "2 \<le> length coords"
    and "boundsKey com = Inr key"
    and "communityBounds cache key = None \<or> communityBounds cache key = Some b"
    and "calculateCommunityBounds com = Some b" "cellNumbersExact gridSize b"
    and "isPointInBounds (coords ! 1) (coords ! 0) b"
  shows "\<exists>candidates cache'.
           getCrimesInCommunityBounds cache com (createSpatialIndex crimes gridSize) gridSize =
             Some (Inr (candidates, cache')) \<and>
           c \<in> set candidates"
proof -
  from createSpatialIndex_contains[OF assms(2,3,4), of gridSize] obtain cs where
    cs: "createSpatialIndex crimes gridSize
           (\<lfloor>jdiv (coords ! 0) gridSize\<rfloor>, \<lfloor>jdiv (coords ! 1) gridSize\<rfloor>) = Some cs" "c \<in> set cs"
    by blast
  have inb: "crimeInBounds b c" using assms(3,4,9) by (simp add: crimeInBounds_def)
  have r: "minLat b \<le> coords ! 1" "coords ! 1 \<le> maxLat b"
      "minLon b \<le> coords ! 0" "coords ! 0 \<le> maxLon b"
    using assms(9) by (simp_all add: isPointInBounds_def)
  have x: "\<lfloor>jdiv (minLon b) gridSize\<rfloor> \<le> \<lfloor>jdiv (coords ! 0) gridSize\<rfloor>"
      "\<lfloor>jdiv (coords ! 0) gridSize\<rfloor> \<le> \<lfloor>jdiv (maxLon b) gridSize\<rfloor>"
    using r(3,4) assms(1) by (auto intro!: floor_mono jdiv_mono)
  have y: "\<lfloor>jdiv (minLat b) gridSize\<rfloor> \<le> \<lfloor>jdiv (coords ! 1) gridSize\<rfloor>"
      "\<lfloor>jdiv (coords ! 1) gridSize\<rfloor> \<le> \<lfloor>jdiv (maxLat b) gridSize\<rfloor>"
    using r(1,2) assms(1) by (auto intro!: floor_mono jdiv_mono)
  have cell: "c \<in> set (cellCrimes (createSpatialIndex crimes gridSize) b
      (\<lfloor>jdiv (coords ! 0) gridSize\<rfloor>, \<lfloor>jdiv (coords ! 1) gridSize\<rfloor>))"
    unfolding cellCrimes_mem using cs inb by blast
  have "c \<in> set (cellRangeCrimes (createSpatialIndex crimes gridSize) gridSize b)"
    unfolding cellRangeCrimes_mem
  proof (intro bexI)
    show "c \<in> set (cellCrimes (createSpatialIndex crimes gridSize) b
      (\<lfloor>jdiv (coords ! 0) gridSize\<rfloor>, \<lfloor>jdiv (coords ! 1) gridSize\<rfloor>))" by (rule cell)
    show "\<lfloor>jdiv (coords ! 1) gridSize\<rfloor>
        \<in> {\<lfloor>jdiv (minLat b) gridSize\<rfloor>..\<lfloor>jdiv (maxLat b) gridSize\<rfloor>}"
      using y by simp
    show "\<lfloor>jdiv (coords ! 0) gridSize\<rfloor>
        \<in> {\<lfloor>jdiv (minLon b) gridSize\<rfloor>..\<lfloor>jdiv (maxLon b) gridSize\<rfloor>}"
      using x by simp
  qed
  then show ?thesis
    using assms(5,6,7)
    by (auto simp add: getCrimesInCommunityBounds_def boundsCrimes_exact[OF assms(8)])
qed

text \<open>
  C6, amended. For every \<open>gridSize > 0\<close>, every boundary with at least 3 extracted
  vertices, and every point record of the indexed dataset with a coordinate of two
  numbers or more: if the point is contained in the boundary polygon (per
  \<open>pointInPolygon\<close>) and lies inside the boundary's bounding box, then the query for
  that boundary returns and the point is in its candidate list. The query is taken on a
  cache that holds no other bounding box under the boundary's key, and with cell numbers
  below \<open>2 ^ 53\<close>, which the loop counters represent exactly.
\<close>

theorem prefilter_complete_in_bounds:
  assumes "0 < gridSize"
    and "c \<in> set crimes" "coordinates c = Some coords" "2 \<le> length coords"
    and "boundsKey com = Inr key"
    and "communityBounds cache key = None \<or> communityBounds cache key = Some b"
    and "calculateCommunityBounds com = Some b" "cellNumbersExact gridSize b"
    and "pointInPolygon (coords ! 1) (coords ! 0) (getPolygonCoordinates (geometry com))"
    and "isPointInBounds (coords ! 1) (coords ! 0) b"
  shows "\<exists>candidates cache'.
           getCrimesInCommunityBounds cache com (createSpatialIndex crimes gridSize) gridSize =
             Some (Inr (candidates, cache')) \<and>
           c \<in> set candidates"
  using assms(1-8,10) by (rule query_complete_in_bounds)

text \<open>The point at the triangle's vertex \<open>(0, 0)\<close> is a candidate.\<close>

theorem prefilter_complete_in_bounds_witness:
  "\<exists>candidates cache'.
     getCrimesInCommunityBounds emptyCache triangle
       (createSpatialIndex [nearEdgeCrime, crimeInYear 2025] defaultGridSize) defaultGridSize =
       Some (Inr (candidates, cache')) \<and>
     crimeInYear 2025 \<in> set candidates"
proof -
  have g: "0 < defaultGridSize" by (simp add: defaultGridSize_value)
  have m: "crimeInYear 2025 \<in> set [nearEdgeCrime, crimeInYear 2025]" by simp
  have c: "coordinates (crimeInYear 2025) = Some [0, 0]" by (simp add: crimeInYear_def)
  have l: "2 \<le> length [0 :: number, 0]" by simp
  have f: "communityBounds emptyCache (Some ''tri'') = None \<or>
      communityBounds emptyCache (Some ''tri'') =
        Some \<lparr>minLat = 0, maxLat = 1 / 256, minLon = 0, maxLon = 1 / 256\<rparr>"
    by (simp add: emptyCache_def)
  have p: "pointInPolygon ([0, 0] ! 1) ([0, 0] ! 0) (getPolygonCoordinates (geometry triangle))"
    using origin_in_triangle by (simp add: triangle_coords)
  have i: "isPointInBounds ([0, 0] ! 1) ([0, 0] ! 0)
             \<lparr>minLat = 0, maxLat = 1 / 256, minLon = 0, maxLon = 1 / 256\<rparr>"
    by (simp add: isPointInBounds_def)
  show ?thesis
    by (rule prefilter_complete_in_bounds[OF g m c l triangle_keys(2) f triangle_bounds
          triangle_exact p i])
qed

section \<open>Points on an edge\<close>

text \<open>
  The rounding error of one operation is at most \<open>2 powi - 53\<close> of the magnitude of its
  result. For coordinates of magnitude up to 1024 the cross product of a point that lies
  exactly on the segment is computed with an error below \<open>2 powi - 26\<close>, far below the
  tolerance.
\<close>

lemma fl_err_bounded:
  assumes "\<bar>x\<bar> \<le> M" "1 / 2 ^ 1022 \<le> M"
  shows "\<bar>fl x - x\<bar> \<le> M / 2 ^ 53"
proof -
  have 1: "\<bar>x\<bar> / 2 ^ 53 \<le> M / 2 ^ 53" using assms(1) by (simp add: divide_right_mono)
  have "(1 / 2 ^ 1022) / 2 ^ 53 \<le> M / 2 ^ 53" using assms(2) by (intro divide_right_mono) simp_all
  moreover have "(1 / 2 ^ 1022) / 2 ^ 53 = (1 / 2 ^ 1075 :: rat)" by simp
  ultimately have 2: "1 / 2 ^ 1075 \<le> M / 2 ^ 53" by simp
  show ?thesis using fl_err[of x] 1 2 by linarith
qed

lemma fl_near:
  assumes "\<bar>x\<bar> \<le> 2048"
  shows "\<bar>fl x - x\<bar> \<le> 1 / 2 ^ 42" "\<bar>fl x\<bar> \<le> 2049"
proof -
  have "\<bar>fl x - x\<bar> \<le> 2048 / 2 ^ 53" using assms by (rule fl_err_bounded) simp
  then show 1: "\<bar>fl x - x\<bar> \<le> 1 / 2 ^ 42" by simp
  have e: "(1 / 2 ^ 42 :: rat) \<le> 1" by simp
  from 1 assms e show "\<bar>fl x\<bar> \<le> 2049" by linarith
qed

lemma product_near:
  assumes "\<bar>a\<bar> \<le> 2048" "\<bar>b\<bar> \<le> 2048"
  shows "\<bar>jmul (fl a) (fl b) - a * b\<bar> \<le> 8193 / 2 ^ 42"
proof -
  note A = fl_near[OF assms(1)] and B = fl_near[OF assms(2)]
  have "fl a * fl b - a * b = fl a * (fl b - b) + b * (fl a - a)" by (simp add: algebra_simps)
  then have "\<bar>fl a * fl b - a * b\<bar> \<le> \<bar>fl a * (fl b - b)\<bar> + \<bar>b * (fl a - a)\<bar>"
    by (simp only: abs_triangle_ineq)
  also have "\<dots> = \<bar>fl a\<bar> * \<bar>fl b - b\<bar> + \<bar>b\<bar> * \<bar>fl a - a\<bar>" by (simp add: abs_mult)
  also have "\<dots> \<le> 2049 * (1 / 2 ^ 42) + 2048 * (1 / 2 ^ 42)"
    using A B assms by (intro add_mono mult_mono) simp_all
  finally have 1: "\<bar>fl a * fl b - a * b\<bar> \<le> 4097 / 2 ^ 42" by simp
  have "\<bar>fl a * fl b\<bar> = \<bar>fl a\<bar> * \<bar>fl b\<bar>" by (rule abs_mult)
  also have "\<dots> \<le> 2049 * 2049" using A(2) B(2) by (intro mult_mono) simp_all
  finally have "\<bar>fl a * fl b\<bar> \<le> 2 ^ 23" by simp
  then have "\<bar>fl (fl a * fl b) - fl a * fl b\<bar> \<le> 2 ^ 23 / 2 ^ 53" by (rule fl_err_bounded) simp
  then have 2: "\<bar>fl (fl a * fl b) - fl a * fl b\<bar> \<le> 4096 / 2 ^ 42" by simp
  show ?thesis unfolding jmul_def using 1 2 by linarith
qed

lemma cross_small:
  assumes "\<bar>a\<bar> \<le> 2048" "\<bar>b\<bar> \<le> 2048" "\<bar>c\<bar> \<le> 2048" "\<bar>d\<bar> \<le> 2048" "a * b = c * d"
  shows "\<bar>jsub (jmul (fl a) (fl b)) (jmul (fl c) (fl d))\<bar> < tolerance"
proof -
  define P where "P = jmul (fl a) (fl b)"
  define Q where "Q = jmul (fl c) (fl d)"
  have "\<bar>P - a * b\<bar> \<le> 8193 / 2 ^ 42" unfolding P_def using assms(1,2) by (rule product_near)
  moreover have "\<bar>Q - a * b\<bar> \<le> 8193 / 2 ^ 42"
    unfolding Q_def assms(5) using assms(3,4) by (rule product_near)
  moreover have "(8193 / 2 ^ 42 + 8193 / 2 ^ 42 :: rat) \<le> 1 / 2 ^ 27" by simp
  ultimately have d: "\<bar>P - Q\<bar> \<le> 1 / 2 ^ 27" by linarith
  then have "\<bar>fl (P - Q) - (P - Q)\<bar> \<le> (1 / 2 ^ 27) / 2 ^ 53" by (rule fl_err_bounded) simp
  then have "\<bar>fl (P - Q)\<bar> \<le> 1 / 2 ^ 27 + (1 / 2 ^ 27) / 2 ^ 53" using d by linarith
  also have "\<dots> < tolerance" by (simp add: tolerance_value)
  finally show ?thesis by (simp add: jsub_def P_def Q_def)
qed

lemma band_low:
  assumes "\<bar>m\<bar> \<le> 1024" "m \<le> p"
  shows "\<not> p < jsub m tolerance"
proof -
  have t: "0 \<le> tolerance" "tolerance \<le> 1" "1025 / 2 ^ 53 \<le> tolerance"
    by (simp_all add: tolerance_value)
  have "\<bar>m - tolerance\<bar> \<le> 1025" using assms(1) t by linarith
  then have "\<bar>fl (m - tolerance) - (m - tolerance)\<bar> \<le> 1025 / 2 ^ 53" by (rule fl_err_bounded) simp
  then have "fl (m - tolerance) \<le> m - tolerance + 1025 / 2 ^ 53" by linarith
  also have "\<dots> \<le> m" using t by linarith
  finally show ?thesis using assms(2) by (simp add: jsub_def)
qed

lemma band_high:
  assumes "\<bar>m\<bar> \<le> 1024" "p \<le> m"
  shows "\<not> jadd m tolerance < p"
proof -
  have t: "0 \<le> tolerance" "tolerance \<le> 1" "1025 / 2 ^ 53 \<le> tolerance"
    by (simp_all add: tolerance_value)
  have "\<bar>m + tolerance\<bar> \<le> 1025" using assms(1) t by linarith
  then have "\<bar>fl (m + tolerance) - (m + tolerance)\<bar> \<le> 1025 / 2 ^ 53" by (rule fl_err_bounded) simp
  then have "m + tolerance - 1025 / 2 ^ 53 \<le> fl (m + tolerance)" by linarith
  moreover have "m \<le> m + tolerance - 1025 / 2 ^ 53" using t by linarith
  ultimately show ?thesis using assms(2) by (simp add: jadd_def)
qed

lemma between:
  fixes t :: rat
  assumes "0 \<le> t" "t \<le> 1" "p = x1 + t * (x2 - x1)"
  shows "min x1 x2 \<le> p" "p \<le> max x1 x2"
proof -
  have p1: "p - x1 = t * (x2 - x1)" using assms(3) by simp
  have p2: "x2 - p = (1 - t) * (x2 - x1)" using assms(3) by (simp add: algebra_simps)
  show "min x1 x2 \<le> p"
  proof (cases "x1 \<le> x2")
    case True
    then have "0 \<le> t * (x2 - x1)" using assms(1) by simp
    then show ?thesis using p1 True by simp
  next
    case False
    then have "(1 - t) * (x2 - x1) \<le> 0" using assms(2) by (simp add: mult_nonneg_nonpos)
    then show ?thesis using p2 False by simp
  qed
  show "p \<le> max x1 x2"
  proof (cases "x1 \<le> x2")
    case True
    then have "0 \<le> (1 - t) * (x2 - x1)" using assms(2) by simp
    then show ?thesis using p2 True by simp
  next
    case False
    then have "t * (x2 - x1) \<le> 0" using assms(1) by (simp add: mult_nonneg_nonpos)
    then show ?thesis using p1 False by simp
  qed
qed

lemma on_segment_exact:
  assumes "\<bar>x1\<bar> \<le> 1024" "\<bar>y1\<bar> \<le> 1024" "\<bar>x2\<bar> \<le> 1024" "\<bar>y2\<bar> \<le> 1024"
    and "0 \<le> t" "t \<le> 1" "px = x1 + t * (x2 - x1)" "py = y1 + t * (y2 - y1)"
  shows "isPointOnLineSegment px py x1 y1 x2 y2"
proof -
  note bx = between[OF assms(5,6,7)] and bY = between[OF assms(5,6,8)]
  have mx: "\<bar>min x1 x2\<bar> \<le> 1024" "\<bar>max x1 x2\<bar> \<le> 1024" using assms(1,3) by (auto simp: min_def max_def)
  have my: "\<bar>min y1 y2\<bar> \<le> 1024" "\<bar>max y1 y2\<bar> \<le> 1024" using assms(2,4) by (auto simp: min_def max_def)
  have b: "\<not> px < jsub (min x1 x2) tolerance" "\<not> jadd (max x1 x2) tolerance < px"
    "\<not> py < jsub (min y1 y2) tolerance" "\<not> jadd (max y1 y2) tolerance < py"
    using band_low[OF mx(1) bx(1)] band_high[OF mx(2) bx(2)]
      band_low[OF my(1) bY(1)] band_high[OF my(2) bY(2)] by simp_all
  have px: "\<bar>px\<bar> \<le> 1024" using bx mx by linarith
  have py: "\<bar>py\<bar> \<le> 1024" using bY my by linarith
  have d: "\<bar>px - x1\<bar> \<le> 2048" "\<bar>y2 - y1\<bar> \<le> 2048" "\<bar>py - y1\<bar> \<le> 2048" "\<bar>x2 - x1\<bar> \<le> 2048"
    using px py assms(1-4) by linarith+
  have e: "(px - x1) * (y2 - y1) = (py - y1) * (x2 - x1)"
    by (simp add: assms(7,8) algebra_simps)
  have "\<bar>jsub (jmul (jsub px x1) (jsub y2 y1)) (jmul (jsub py y1) (jsub x2 x1))\<bar> < tolerance"
    using cross_small[OF d e] by (simp add: jsub_def)
  then show ?thesis using b by (simp add: isPointOnLineSegment_def)
qed


lemma polygonEdges_nth:
  assumes "j < length vs"
  shows "(vs ! j, vs ! ((j + length vs - 1) mod length vs)) \<in> set (polygonEdges vs)"
proof -
  have ne: "vs \<noteq> []" using assms by auto
  have l: "length (last vs # butlast vs) = length vs" using ne by simp
  have "(last vs # butlast vs) ! j = vs ! ((j + length vs - 1) mod length vs)"
  proof (cases j)
    case 0
    then show ?thesis using ne by (simp add: last_conv_nth)
  next
    case (Suc k)
    then have "k < length vs - 1" using assms by simp
    then have "(last vs # butlast vs) ! j = vs ! k" by (simp add: Suc nth_butlast)
    moreover have "(j + length vs - 1) mod length vs = k" using Suc assms by simp
    ultimately show ?thesis by simp
  qed
  then have "polygonEdges vs ! j = (vs ! j, vs ! ((j + length vs - 1) mod length vs))"
    using assms l by (simp add: polygonEdges_def)
  moreover have "j < length (polygonEdges vs)" using assms l by (simp add: polygonEdges_def)
  ultimately show ?thesis by (metis nth_mem)
qed

text \<open>
  C5. For every polygon with at least 3 vertices and every point lying exactly on one
  of its edges (the wrap-around edge from the last to the first vertex included),
  \<open>pointInPolygon\<close> returns \<open>true\<close>. The coordinates are latitudes and longitudes in
  degrees; the proof uses that their magnitude is at most 1024, so that no intermediate
  result of the cross product leaves the range in which the rounding error is far below
  the tolerance.
\<close>

theorem boundary_points_contained:
  assumes "3 \<le> length polygon"
    and "i < length polygon" "a = polygon ! i" "b = polygon ! ((i + 1) mod length polygon)"
    and "\<forall>v\<in>set polygon. \<bar>fst v\<bar> \<le> 1024 \<and> \<bar>snd v\<bar> \<le> 1024"
    and "0 \<le> t" "t \<le> 1"
    and "lat = fst a + t * (fst b - fst a)" "lon = snd a + t * (snd b - snd a)"
  shows "pointInPolygon lat lon polygon"
proof -
  define n where "n = length polygon"
  define j where "j = (i + 1) mod n"
  have n: "0 < n" using assms(1) by (auto simp add: n_def)
  have j: "j < n" unfolding j_def using n by simp
  have "(j + n - 1) mod n = i"
  proof (cases "i + 1 < n")
    case True
    then show ?thesis by (simp add: j_def)
  next
    case False
    then have "i + 1 = n" using assms(2) by (simp add: n_def)
    then show ?thesis using assms(2) n by (simp add: j_def n_def)
  qed
  then have e: "(b, a) \<in> set (polygonEdges polygon)"
    using polygonEdges_nth[of j polygon] j by (simp add: assms(3,4) n_def j_def)
  have a: "a \<in> set polygon" using assms(2,3) by simp
  have b: "b \<in> set polygon" using j by (simp add: assms(4) n_def j_def)
  have r: "\<bar>fst b\<bar> \<le> 1024" "\<bar>snd b\<bar> \<le> 1024" "\<bar>fst a\<bar> \<le> 1024" "\<bar>snd a\<bar> \<le> 1024"
    using assms(5) a b by auto
  have t': "0 \<le> 1 - t" "1 - t \<le> 1" using assms(6,7) by simp_all
  have p: "lat = fst b + (1 - t) * (fst a - fst b)" "lon = snd b + (1 - t) * (snd a - snd b)"
    by (simp_all add: assms(8,9) algebra_simps)
  have "isPointOnLineSegment lat lon (fst b) (snd b) (fst a) (snd a)"
    using r t' p by (rule on_segment_exact)
  then have "\<exists>e\<in>set (polygonEdges polygon).
      isPointOnLineSegment lat lon (fst (fst e)) (snd (fst e)) (fst (snd e)) (snd (snd e))"
    using e by force
  then show ?thesis using assms(1) by (simp add: pointInPolygon_def edgeLoop_iff)
qed

text \<open>The midpoint of the hypotenuse, and a point of the wrap-around edge.\<close>

theorem boundary_points_contained_witness:
  "pointInPolygon (1 / 2) (1 / 2) [(0, 0), (0, 1), (1, 0)] \<and>
   pointInPolygon (1 / 4) 0 [(0, 0), (0, 1), (1, 0)]"
proof -
  have l: "3 \<le> length [(0, 0), (0, 1), (1, 0 :: number) :: vertex]" by simp
  have r: "\<forall>v\<in>set [(0, 0), (0, 1), (1, 0 :: number) :: vertex]. \<bar>fst v\<bar> \<le> 1024 \<and> \<bar>snd v\<bar> \<le> 1024"
    by simp
  have 1: "pointInPolygon (1 / 2) (1 / 2) [(0, 0), (0, 1), (1, 0)]"
    by (rule boundary_points_contained[OF l, of 1 "(0, 1)" "(1, 0)" "1 / 2", OF _ _ _ r]) simp_all
  have 2: "pointInPolygon (1 / 4) 0 [(0, 0), (0, 1), (1, 0)]"
    by (rule boundary_points_contained[OF l, of 2 "(1, 0)" "(0, 0)" "3 / 4", OF _ _ _ r]) simp_all
  from 1 2 show ?thesis ..
qed


end
